theory Spec2Isabelle
  imports Complex_Main
begin

section \<open>Tables of the MovieLens notebook\<close>

text \<open>
  The notebook \<^verbatim>\<open>Explicit_Feedback_Neural_Recommender_System.ipynb\<close> loads two
  tables with pandas. \<^verbatim>\<open>all_ratings\<close> has the columns user_id, item_id, rating and
  timestamp and the default positional index; it is taken as \<^verbatim>\<open>read_csv\<close> returns it
  for a file in the format the notebook describes (four integer fields per line). \<^verbatim>\<open>items\<close> is read with 23 column
  names from a file of 24 fields per line, so pandas takes the first field (the movie
  id) as the index: \<^verbatim>\<open>items["name"][k]\<close> is a lookup by movie id, as the notebook's
  \<^verbatim>\<open>items["name"][1]\<close> ("first item name") shows. A table with an index is a list of
  (label, row) pairs in file order.
\<close>

datatype py_error = KeyError | ValueError | TypeError | IndexError | IOError | BadZipFile

record rating_row =
  user_id :: int
  item_id :: int
  rating :: int
  timestamp :: int

record item =
  name :: string
  date :: string
  genre :: string
  url :: string

record dated_item = item +
  parsed_date :: int
  scaled_date :: real

type_synonym 'a table = "(int \<times> 'a) list"

text \<open>\<^verbatim>\<open>series[k]\<close> for one integer label on an integer index: KeyError when absent.\<close>

definition loc :: "'a table \<Rightarrow> int \<Rightarrow> py_error + 'a" where
  "loc tbl k = (case map_of tbl k of None \<Rightarrow> Inl KeyError | Some r \<Rightarrow> Inr r)"

text \<open>
  \<^verbatim>\<open>series[ks]\<close> for an array of labels. A label that is absent raises KeyError, as
  pandas does since 1.0 (older releases put NaN there instead); the first absent label
  ends the lookup.
\<close>

fun loc_all :: "'a table \<Rightarrow> int list \<Rightarrow> py_error + 'a list" where
  "loc_all tbl [] = Inr []"
| "loc_all tbl (k # ks) =
     (case loc tbl k of
        Inl e \<Rightarrow> Inl e
      | Inr r \<Rightarrow> (case loc_all tbl ks of Inl e \<Rightarrow> Inl e | Inr rs \<Rightarrow> Inr (r # rs)))"

text \<open>
  A loop or comprehension over elements that may raise: the first exception ends it.
\<close>

fun collect :: "(py_error + 'a) list \<Rightarrow> py_error + 'a list" where
  "collect [] = Inr []"
| "collect (Inl e # rs) = Inl e"
| "collect (Inr x # rs) = (case collect rs of Inl e \<Rightarrow> Inl e | Inr xs \<Rightarrow> Inr (x # xs))"

text \<open>
  \<^verbatim>\<open>all_ratings['item_id'].max()\<close>: the largest item id of the table; an empty table
  has none (pandas gives NaN, and \<^verbatim>\<open>range(1, nan)\<close> raises TypeError).
\<close>

definition max_item_id :: "rating_row list \<Rightarrow> int option" where
  "max_item_id all_ratings =
     (case all_ratings of [] \<Rightarrow> None | r # rs \<Rightarrow> Some (fold max (map item_id rs) (item_id r)))"

definition max_user_id :: "rating_row list \<Rightarrow> int option" where
  "max_user_id all_ratings =
     (case all_ratings of [] \<Rightarrow> None | r # rs \<Rightarrow> Some (fold max (map user_id rs) (user_id r)))"

section \<open>The recommendation function\<close>

text \<open>
  \<^verbatim>\<open>np.argsort(v)\<close>: the positions of \<open>v\<close> in non-decreasing order of value. numpy's
  default sort is not stable, so the order of positions with equal values is not fixed
  by numpy; this model lists them in increasing position. No theorem below depends on
  the order among ties.
\<close>

definition argsort :: "'r::linorder list \<Rightarrow> nat list" where
  "argsort v = sort_key (\<lambda>i. v ! i) [0..<length v]"

text \<open>\<^verbatim>\<open>xs[:k]\<close> for a Python int \<open>k\<close>: a negative \<open>k\<close> counts from the end.\<close>

definition py_take :: "int \<Rightarrow> 'a list \<Rightarrow> 'a list" where
  "py_take k xs = (if 0 \<le> k then take (nat k) xs else take (nat (int (length xs) + k)) xs)"

text \<open>\<^verbatim>\<open>list(all_ratings[all_ratings["user_id"]==user_id]["item_id"])\<close>\<close>

definition seen_movies :: "rating_row list \<Rightarrow> int \<Rightarrow> int list" where
  "seen_movies all_ratings uid = map item_id (filter (\<lambda>r. user_id r = uid) all_ratings)"

text \<open>
  \<^verbatim>\<open>item_ids = range(1, max_item_id)\<close> followed by
  \<^verbatim>\<open>list(filter(lambda x: x not in seen_movies, item_ids))\<close>.
\<close>

definition candidate_ids :: "rating_row list \<Rightarrow> int \<Rightarrow> int \<Rightarrow> int list" where
  "candidate_ids all_ratings m uid =
     filter (\<lambda>x. x \<notin> set (seen_movies all_ratings uid)) [1..m - 1]"

text \<open>
  \<^verbatim>\<open>model.predict([user, item_ids, items_meta])[:,0]\<close>: one prediction per candidate,
  in the candidates' order. The trained network is a parameter \<open>predict\<close>, a function of
  one sample (user id, item id, metadata scalar). What Keras does with a batch of no
  samples is not modelled: the prediction vector of no candidates is empty. The line
  \<^verbatim>\<open>recommend\<close> prints is left out.
\<close>

definition rating_preds :: "(int \<Rightarrow> int \<Rightarrow> real \<Rightarrow> 'r) \<Rightarrow> int \<Rightarrow> int list \<Rightarrow> real list \<Rightarrow> 'r list" where
  "rating_preds predict uid item_ids items_meta = map2 (predict uid) item_ids items_meta"

text \<open>
  \<^verbatim>\<open>item_ids = np.argsort(rating_preds[:,0])[::-1].tolist()\<close> and
  \<^verbatim>\<open>rec_items = item_ids[:top_n]\<close>: positions in the prediction vector.
\<close>

definition rec_items :: "'r::linorder list \<Rightarrow> int \<Rightarrow> nat list" where
  "rec_items preds top_n = py_take top_n (rev (argsort preds))"

text \<open>
  \<^verbatim>\<open>[(items["name"][movie], rating_preds[movie][0]) for movie in rec_items]\<close>: the
  name is looked up in \<open>items\<close> under the label \<open>movie\<close>, the rating is read at position
  \<open>movie\<close> of the prediction vector.
\<close>

fun name_rating_pairs :: "dated_item table \<Rightarrow> 'r list \<Rightarrow> nat list \<Rightarrow> py_error + (string \<times> 'r) list" where
  "name_rating_pairs items preds [] = Inr []"
| "name_rating_pairs items preds (movie # rest) =
     (case loc items (int movie) of
        Inl e \<Rightarrow> Inl e
      | Inr it \<Rightarrow>
          if movie < length preds then
            (case name_rating_pairs items preds rest of
               Inl e \<Rightarrow> Inl e
             | Inr ps \<Rightarrow> Inr ((name it, preds ! movie) # ps))
          else Inl IndexError)"

text \<open>
  The body of \<^verbatim>\<open>recommend\<close> up to its return statement: the candidate ids that are
  scored, the prediction vector, and \<^verbatim>\<open>rec_items\<close>.
\<close>

definition recommend_locals ::
  "(int \<Rightarrow> int \<Rightarrow> real \<Rightarrow> 'r::linorder) \<Rightarrow> rating_row list \<Rightarrow> dated_item table \<Rightarrow> int \<Rightarrow> int
     \<Rightarrow> py_error + (int list \<times> 'r list \<times> nat list)" where
  "recommend_locals predict all_ratings items uid top_n =
     (case max_item_id all_ratings of
        None \<Rightarrow> Inl TypeError
      | Some m \<Rightarrow>
          (let item_ids = candidate_ids all_ratings m uid in
           case loc_all items item_ids of
             Inl e \<Rightarrow> Inl e
           | Inr rows \<Rightarrow>
               (let preds = rating_preds predict uid item_ids (map scaled_date rows)
                in Inr (item_ids, preds, rec_items preds top_n))))"

definition recommend ::
  "(int \<Rightarrow> int \<Rightarrow> real \<Rightarrow> 'r::linorder) \<Rightarrow> rating_row list \<Rightarrow> dated_item table \<Rightarrow> int \<Rightarrow> int
     \<Rightarrow> py_error + (string \<times> 'r) list" where
  "recommend predict all_ratings items uid top_n =
     (case recommend_locals predict all_ratings items uid top_n of
        Inl e \<Rightarrow> Inl e
      | Inr (item_ids, preds, rec) \<Rightarrow> name_rating_pairs items preds rec)"

text \<open>
  A small instance: four movies, and one user (id 1) who has rated movies 1 and 4. The
  stand-in for the trained network predicts ten times the item id.
\<close>

definition ex_item :: "string \<Rightarrow> dated_item" where
  "ex_item n = \<lparr>name = n, date = ''01-Jan-1995'', genre = ''01-Jan-1997'', url = ''u'',
                parsed_date = 1995, scaled_date = 0\<rparr>"

definition ex_items :: "dated_item table" where
  "ex_items = [(1, ex_item ''A''), (2, ex_item ''B''), (3, ex_item ''C''), (4, ex_item ''D'')]"

definition ex_ratings :: "rating_row list" where
  "ex_ratings = [\<lparr>user_id = 1, item_id = 1, rating = 5, timestamp = 0\<rparr>,
                 \<lparr>user_id = 1, item_id = 4, rating = 3, timestamp = 0\<rparr>]"

definition ex_predict :: "int \<Rightarrow> int \<Rightarrow> real \<Rightarrow> int" where
  "ex_predict u i m = 10 * i"

section \<open>The Keras model graphs\<close>

text \<open>
  The notebook builds its networks with the Keras functional API. The graphs are kept as
  data, written as the notebook writes them, and given the meaning Keras gives them at
  prediction time, one sample at a time, over the reals (the idealisation of float32).
  The trained parameters are not part of the notebook; they are a parameter \<open>w\<close>.
  Keras names the layers the notebook leaves unnamed; a \<open>Dense\<close> layer carries the
  position it has among the dense layers of its model instead.
\<close>

datatype activation = Linear | Relu

datatype tensor =
    Input string
  | Embedding nat int string tensor
  | Flatten tensor
  | MergeDot tensor tensor
  | MergeConcat "tensor list"
  | Dense nat activation nat tensor
  | Dropout real tensor

datatype model = Model (minputs: "tensor list") (moutput: tensor)

datatype val = Vec "real list" | Mat "real list list"

record weights =
  emb :: "string \<Rightarrow> real list list"
  dense :: "nat \<Rightarrow> real list list \<times> real list"

definition dot :: "real list \<Rightarrow> real list \<Rightarrow> real" where
  "dot xs ys = sum_list (map2 (*) xs ys)"

definition activate :: "activation \<Rightarrow> real \<Rightarrow> real" where
  "activate a x = (case a of Linear \<Rightarrow> x | Relu \<Rightarrow> max 0 x)"

text \<open>
  An embedding layer casts its input to an integer (truncating) and reads that row of
  its table; an index outside \<open>0 .. input_dim - 1\<close> is an error.
\<close>

definition cast_int :: "real \<Rightarrow> int" where
  "cast_int x = (if 0 \<le> x then \<lfloor>x\<rfloor> else - \<lfloor>- x\<rfloor>)"

definition embedding_row :: "int \<Rightarrow> real list list \<Rightarrow> real \<Rightarrow> py_error + real list" where
  "embedding_row input_dim tbl x =
     (let i = cast_int x
      in if 0 \<le> i \<and> i < input_dim \<and> nat i < length tbl then Inr (tbl ! nat i)
         else Inl IndexError)"

text \<open>
  A dense layer with kernel \<open>W\<close> (one row per input component, \<open>units\<close> columns) and
  bias \<open>b\<close> maps \<open>v\<close> to \<open>activation (v W + b)\<close>.
\<close>

definition apply_dense :: "weights \<Rightarrow> nat \<Rightarrow> nat \<Rightarrow> activation \<Rightarrow> real list \<Rightarrow> py_error + real list" where
  "apply_dense w k units a v =
     (case dense w k of (W, b) \<Rightarrow>
        if length W = length v \<and> length b = units \<and> list_all (\<lambda>row. length row = units) W
        then Inr (map (\<lambda>j. activate a (dot v (map (\<lambda>row. row ! j) W) + b ! j)) [0..<units])
        else Inl ValueError)"

definition as_vec :: "val \<Rightarrow> py_error + real list" where
  "as_vec x = (case x of Vec v \<Rightarrow> Inr v | Mat m \<Rightarrow> Inl ValueError)"

fun eval :: "weights \<Rightarrow> (string \<times> real) list \<Rightarrow> tensor \<Rightarrow> py_error + val" where
  "eval w feed (Input n) =
     (case map_of feed n of None \<Rightarrow> Inl KeyError | Some x \<Rightarrow> Inr (Vec [x]))"
| "eval w feed (Embedding output_dim input_dim n t) =
     (case eval w feed t of
        Inr (Vec ids) \<Rightarrow>
          (case collect (map (embedding_row input_dim (emb w n)) ids) of
             Inl e \<Rightarrow> Inl e
           | Inr rows \<Rightarrow>
               if list_all (\<lambda>row. length row = output_dim) rows then Inr (Mat rows)
               else Inl ValueError)
      | Inr (Mat m) \<Rightarrow> Inl ValueError
      | Inl e \<Rightarrow> Inl e)"
| "eval w feed (Flatten t) =
     (case eval w feed t of
        Inr (Mat rows) \<Rightarrow> Inr (Vec (concat rows))
      | Inr (Vec v) \<Rightarrow> Inr (Vec v)
      | Inl e \<Rightarrow> Inl e)"
| "eval w feed (MergeDot a b) =
     (case (eval w feed a, eval w feed b) of
        (Inr (Vec x), Inr (Vec y)) \<Rightarrow>
          if length x = length y then Inr (Vec [dot x y]) else Inl ValueError
      | (Inl e, _) \<Rightarrow> Inl e
      | (_, Inl e) \<Rightarrow> Inl e
      | _ \<Rightarrow> Inl ValueError)"
| "eval w feed (MergeConcat ts) =
     (case collect (map (\<lambda>t. case eval w feed t of Inl e \<Rightarrow> Inl e | Inr x \<Rightarrow> as_vec x) ts) of
        Inl e \<Rightarrow> Inl e
      | Inr vs \<Rightarrow> Inr (Vec (concat vs)))"
| "eval w feed (Dense units a k t) =
     (case eval w feed t of
        Inr (Vec v) \<Rightarrow> (case apply_dense w k units a v of Inl e \<Rightarrow> Inl e | Inr y \<Rightarrow> Inr (Vec y))
      | Inr (Mat m) \<Rightarrow> Inl ValueError
      | Inl e \<Rightarrow> Inl e)"
| "eval w feed (Dropout rate t) = eval w feed t"

text \<open>
  \<^verbatim>\<open>model.predict([x1, ..., xk])\<close> for one sample: the arrays are matched with the
  model's inputs by position.
\<close>

fun input_name :: "tensor \<Rightarrow> string option" where
  "input_name (Input n) = Some n"
| "input_name _ = None"

definition model_predict :: "model \<Rightarrow> weights \<Rightarrow> real list \<Rightarrow> py_error + val" where
  "model_predict m w xs =
     (if length xs \<noteq> length (minputs m) \<or> \<not> list_all (\<lambda>t. input_name t \<noteq> None) (minputs m)
      then Inl ValueError
      else eval w (zip (map (\<lambda>t. the (input_name t)) (minputs m)) xs) (moutput m))"

text \<open>The matrix-factorisation model of the notebook (embedding_size = 30).\<close>

definition mf_user_vecs :: "int \<Rightarrow> tensor" where
  "mf_user_vecs max_uid = Flatten (Embedding 30 (max_uid + 1) ''user_embedding'' (Input ''user''))"

definition mf_item_vecs :: "int \<Rightarrow> tensor" where
  "mf_item_vecs max_iid = Flatten (Embedding 30 (max_iid + 1) ''item_embedding'' (Input ''item''))"

definition mf_model :: "int \<Rightarrow> int \<Rightarrow> model" where
  "mf_model max_uid max_iid =
     Model [Input ''user'', Input ''item''] (MergeDot (mf_user_vecs max_uid) (mf_item_vecs max_iid))"

text \<open>The model with item metadata (embedding_size = 32).\<close>

definition hybrid_user_vecs :: "int \<Rightarrow> tensor" where
  "hybrid_user_vecs max_uid = Flatten (Embedding 32 (max_uid + 1) ''user_embedding'' (Input ''user''))"

definition hybrid_item_vecs :: "int \<Rightarrow> tensor" where
  "hybrid_item_vecs max_iid = Flatten (Embedding 32 (max_iid + 1) ''item_embedding'' (Input ''item''))"

definition hybrid_input_vecs :: "int \<Rightarrow> int \<Rightarrow> tensor" where
  "hybrid_input_vecs max_uid max_iid =
     MergeConcat [hybrid_user_vecs max_uid, hybrid_item_vecs max_iid, Input ''meta_item'']"

definition hybrid_model :: "int \<Rightarrow> int \<Rightarrow> model" where
  "hybrid_model max_uid max_iid =
     Model [Input ''user'', Input ''item'', Input ''meta_item'']
       (Dense 1 Linear 2
         (Dense 32 Relu 1
           (Dropout (1 / 2)
             (Dense 64 Relu 0 (hybrid_input_vecs max_uid max_iid)))))"

text \<open>
  The parameter Keras creates for \<^verbatim>\<open>Embedding(output_dim, input_dim)\<close>: a table of
  \<open>input_dim\<close> rows of \<open>output_dim\<close> numbers.
\<close>

definition embedding_table :: "nat \<Rightarrow> int \<Rightarrow> real list list \<Rightarrow> bool" where
  "embedding_table output_dim input_dim tbl =
     (int (length tbl) = input_dim \<and> list_all (\<lambda>row. length row = output_dim) tbl)"

definition ex_mf_weights :: weights where
  "ex_mf_weights =
     \<lparr>emb = (\<lambda>n. if n = ''user_embedding'' then [replicate 30 1, replicate 30 2]
                 else [replicate 30 3, replicate 30 (1 / 2)]),
      dense = (\<lambda>k. ([], []))\<rparr>"

definition ex_hybrid_weights :: weights where
  "ex_hybrid_weights =
     \<lparr>emb = (\<lambda>n. if n = ''user_embedding'' then [replicate 32 1, replicate 32 2]
                 else [replicate 32 3, replicate 32 (1 / 2)]),
      dense = (\<lambda>k. if k = 0 then (replicate 65 (replicate 64 1), replicate 64 0)
                   else if k = 1 then (replicate 64 (replicate 32 1), replicate 32 (- 1))
                   else (replicate 32 (replicate 1 2), [5]))\<rparr>"

section \<open>Downloading and extracting the data set\<close>

text \<open>
  The first cell tests two paths of the working directory and calls
  \<^verbatim>\<open>urlretrieve\<close> and \<^verbatim>\<open>ZipFile(...).extractall('.')\<close>. The working directory is a
  map from paths to entries; the calls made are collected in a list. What the network
  returns for a URL (\<open>fetch\<close>, \<open>None\<close> for a failed download) and what an archive
  holds (\<open>unzip\<close>, \<open>None\<close> for bytes that are not a zip archive) are parameters.
\<close>

datatype entry = File string | Dir

datatype action = Print string | Urlretrieve string string | Extractall string string

type_synonym directory = "string \<Rightarrow> entry option"

text \<open>\<^verbatim>\<open>s.rsplit(sep, 1)\<close>: split once, at the last occurrence of \<open>sep\<close>.\<close>

definition rsplit1 :: "char \<Rightarrow> string \<Rightarrow> string list" where
  "rsplit1 sep s =
     (if sep \<in> set s
      then [rev (tl (dropWhile (\<lambda>c. c \<noteq> sep) (rev s))), rev (takeWhile (\<lambda>c. c \<noteq> sep) (rev s))]
      else [s])"

definition ML_100K_URL :: string where
  "ML_100K_URL = ''http://files.grouplens.org/datasets/movielens/ml-100k.zip''"

definition ML_100K_FILENAME :: string where
  "ML_100K_FILENAME = rsplit1 CHR ''/'' ML_100K_URL ! 1"

definition ML_100K_FOLDER :: string where
  "ML_100K_FOLDER = ''ml-100k''"

definition exists_path :: "directory \<Rightarrow> string \<Rightarrow> bool" where
  "exists_path d p = (d p \<noteq> None)"

text \<open>
  \<^verbatim>\<open>if not op.exists(ML_100K_FILENAME): print(...); urlretrieve(URL, FILENAME)\<close>.
  The result is the directory, the calls made, and the exception raised, if any.
\<close>

definition download_step ::
  "(string \<Rightarrow> string option) \<Rightarrow> directory \<Rightarrow> directory \<times> action list \<times> py_error option" where
  "download_step fetch d =
     (if \<not> exists_path d ML_100K_FILENAME then
        (let acts = [Print (''Downloading '' @ ML_100K_URL @ '' to '' @ ML_100K_FILENAME @ ''...''),
                     Urlretrieve ML_100K_URL ML_100K_FILENAME]
         in case fetch ML_100K_URL of
              None \<Rightarrow> (d, acts, Some IOError)
            | Some bytes \<Rightarrow> (d(ML_100K_FILENAME \<mapsto> File bytes), acts, None))
      else (d, [], None))"

text \<open>
  \<^verbatim>\<open>if not op.exists(ML_100K_FOLDER): print(...); ZipFile(FILENAME).extractall('.')\<close>.
  The archive is opened first: when \<^verbatim>\<open>ZipFile(...)\<close> raises (no such file, a
  directory, or bytes that are not a zip archive), \<^verbatim>\<open>extractall\<close> is not called.
  Extraction writes every member of the archive under its own path.
\<close>

definition extract_step ::
  "(string \<Rightarrow> (string \<times> entry) list option) \<Rightarrow> directory
     \<Rightarrow> directory \<times> action list \<times> py_error option" where
  "extract_step unzip d =
     (if \<not> exists_path d ML_100K_FOLDER then
        (let msg = Print (''Extracting '' @ ML_100K_FILENAME @ '' to '' @ ML_100K_FOLDER @ ''...'')
         in case d ML_100K_FILENAME of
              Some (File bytes) \<Rightarrow>
                (case unzip bytes of
                   None \<Rightarrow> (d, [msg], Some BadZipFile)
                 | Some members \<Rightarrow>
                     (d ++ map_of members, [msg, Extractall ML_100K_FILENAME ''.''], None))
            | _ \<Rightarrow> (d, [msg], Some IOError))
      else (d, [], None))"

definition fetch_dataset ::
  "(string \<Rightarrow> string option) \<Rightarrow> (string \<Rightarrow> (string \<times> entry) list option) \<Rightarrow> directory
     \<Rightarrow> directory \<times> action list \<times> py_error option" where
  "fetch_dataset fetch unzip d =
     (case download_step fetch d of
        (d1, acts1, Some e) \<Rightarrow> (d1, acts1, Some e)
      | (d1, acts1, None) \<Rightarrow>
          (case extract_step unzip d1 of (d2, acts2, r) \<Rightarrow> (d2, acts1 @ acts2, r)))"

definition is_download :: "action \<Rightarrow> bool" where
  "is_download a = (case a of Urlretrieve u f \<Rightarrow> True | _ \<Rightarrow> False)"

definition is_extract :: "action \<Rightarrow> bool" where
  "is_extract a = (case a of Extractall f p \<Rightarrow> True | _ \<Rightarrow> False)"

definition ex_directory :: directory where
  "ex_directory = [''ml-100k.zip'' \<mapsto> File ''PK'', ''ml-100k'' \<mapsto> Dir]"

section \<open>Reading integers from strings\<close>

definition is_digit :: "char \<Rightarrow> bool" where
  "is_digit c = (c \<in> set ''0123456789'')"

text \<open>
  A string is a list of characters with codes below 256, the code points of Latin-1
  (the encoding \<^verbatim>\<open>u.item\<close> is read with). The white space \<^verbatim>\<open>int\<close> skips among
  them: tab to carriage return, space, next line (0x85) and no-break space (0xA0).
\<close>

definition is_space :: "char \<Rightarrow> bool" where
  "is_space c =
     (c \<in> set [CHR '' '', CHR 0x09, CHR 0x0A, CHR 0x0B, CHR 0x0C, CHR 0x0D, CHR 0x85, CHR 0xA0])"

definition digit_val :: "char \<Rightarrow> int" where
  "digit_val c = of_char c - 48"

definition digits_value :: "string \<Rightarrow> int" where
  "digits_value ds = foldl (\<lambda>a c. 10 * a + digit_val c) 0 ds"

definition strip :: "string \<Rightarrow> string" where
  "strip s = rev (dropWhile is_space (rev (dropWhile is_space s)))"

text \<open>
  \<^verbatim>\<open>int(s)\<close> for a string, as Python 3.5 (the notebook's kernel) reads it: surrounding
  white space, an optional sign, then one or more decimal digits; anything else raises
  ValueError.
\<close>

definition py_int :: "string \<Rightarrow> py_error + int" where
  "py_int s =
     (let t = strip s;
          neg = (case t of c # r \<Rightarrow> c = CHR ''-'' | [] \<Rightarrow> False);
          ds = (case t of c # r \<Rightarrow> if c = CHR ''-'' \<or> c = CHR ''+'' then r else t | [] \<Rightarrow> t)
      in if ds \<noteq> [] \<and> list_all is_digit ds
         then Inr (if neg then - digits_value ds else digits_value ds)
         else Inl ValueError)"

section \<open>The train/test split\<close>

text \<open>
  \<^verbatim>\<open>train_test_split(all_ratings, test_size=0.2, random_state=0)\<close> of
  \<^verbatim>\<open>sklearn.cross_validation\<close> is library code. As scikit-learn documents and
  implements it: with \<open>n\<close> rows, \<open>n_test = ceil(test_size * n)\<close> and
  \<open>n_train = n - n_test\<close>; a random permutation of the row positions is drawn, its
  first \<open>n_test\<close> positions are the test rows and the next \<open>n_train\<close> the train
  rows. The permutation drawn from the seeded generator is a parameter. Rows keep their
  index label (their position in \<open>all_ratings\<close>).

  The product \<open>0.2 * n\<close> is a double-precision product: the double nearest to 0.2 is
  \<open>3602879701896397 / 2^54\<close>, and the exact product is rounded to 53 significant bits,
  ties to even.
\<close>

function bit_length :: "int \<Rightarrow> nat" where
  "bit_length n = (if n \<le> 0 then 0 else Suc (bit_length (n div 2)))"
  by pat_completeness auto
termination
  by (relation "measure nat") auto

declare bit_length.simps [simp del]

definition round53 :: "int \<Rightarrow> int" where
  "round53 x =
     (let l = bit_length x in
      if l \<le> 53 then x
      else (let sh = l - 53; q = x div 2 ^ sh; r = x mod 2 ^ sh; h = 2 ^ (sh - 1)
            in (if h < r \<or> (r = h \<and> odd q) then q + 1 else q) * 2 ^ sh))"

definition n_test_of :: "nat \<Rightarrow> nat" where
  "n_test_of n =
     nat ((round53 (round53 (int n) * 3602879701896397) + (2 ^ 54 - 1)) div 2 ^ 54)"

definition is_permutation :: "nat \<Rightarrow> nat list \<Rightarrow> bool" where
  "is_permutation n p = (sort p = [0..<n])"

text \<open>
  The rows at the given positions, each with its index label. The positions come from a
  permutation of the row positions, so they are in range.
\<close>

definition take_rows :: "'a list \<Rightarrow> nat list \<Rightarrow> 'a table" where
  "take_rows rows idxs = map (\<lambda>i. (int i, rows ! i)) idxs"

definition train_test_split :: "'a list \<Rightarrow> nat list \<Rightarrow> 'a table \<times> 'a table" where
  "train_test_split rows permutation =
     (let n = length rows;
          n_test = n_test_of n;
          n_train = n - n_test;
          ind_test = take n_test permutation;
          ind_train = take n_train (drop n_test permutation)
      in (take_rows rows ind_train, take_rows rows ind_test))"

text \<open>Three rows of the ratings table.\<close>

definition ex_three_ratings :: "rating_row list" where
  "ex_three_ratings =
     [\<lparr>user_id = 196, item_id = 242, rating = 3, timestamp = 881250949\<rparr>,
      \<lparr>user_id = 186, item_id = 302, rating = 3, timestamp = 891717742\<rparr>,
      \<lparr>user_id = 22, item_id = 377, rating = 1, timestamp = 878887116\<rparr>]"

text \<open>A ratings table of 100000 rows, the size of the MovieLens 100K file.\<close>

definition ex_100k_ratings :: "rating_row list" where
  "ex_100k_ratings =
     replicate 100000 \<lparr>user_id = 196, item_id = 242, rating = 3, timestamp = 881250949\<rparr>"

section \<open>Item metadata\<close>

text \<open>
  \<^verbatim>\<open>items\<close> as \<^verbatim>\<open>read_csv\<close> returns it: a field that is empty in the file is
  missing (NaN), here \<open>None\<close>. The nineteen flag columns are not used by the notebook
  and are left out. \<^verbatim>\<open>items.fillna(value="01-Jan-1997", inplace=True)\<close> fills every
  missing field of every column.
\<close>

record raw_item =
  raw_name :: "string option"
  raw_date :: "string option"
  raw_genre :: "string option"
  raw_url :: "string option"

definition fill :: "string \<Rightarrow> string option \<Rightarrow> string" where
  "fill v x = (case x of None \<Rightarrow> v | Some s \<Rightarrow> s)"

definition fillna :: "string \<Rightarrow> raw_item table \<Rightarrow> item table" where
  "fillna v tbl =
     map (\<lambda>(k, r). (k, \<lparr>name = fill v (raw_name r), date = fill v (raw_date r),
                         genre = fill v (raw_genre r), url = fill v (raw_url r)\<rparr>)) tbl"

definition load_items :: "raw_item table \<Rightarrow> item table" where
  "load_items raw = fillna ''01-Jan-1997'' raw"

text \<open>\<^verbatim>\<open>film_date[-4:]\<close>: the last four characters, or all of a shorter string.\<close>

definition last4 :: "string \<Rightarrow> string" where
  "last4 s = drop (length s - 4) s"

text \<open>\<^verbatim>\<open>[int(film_date[-4:]) for film_date in items["date"].tolist()]\<close>\<close>

definition parsed_dates :: "item table \<Rightarrow> py_error + int list" where
  "parsed_dates items = collect (map (\<lambda>(k, it). py_int (last4 (date it))) items)"

text \<open>
  \<^verbatim>\<open>sklearn.preprocessing.scale\<close> on one column, over the reals: subtract the mean
  and divide by the population standard deviation, a standard deviation of zero being
  replaced by one. An empty column is refused.
\<close>

definition mean :: "real list \<Rightarrow> real" where
  "mean xs = sum_list xs / real (length xs)"

definition variance :: "real list \<Rightarrow> real" where
  "variance xs = mean (map (\<lambda>x. (x - mean xs)\<^sup>2) xs)"

definition std :: "real list \<Rightarrow> real" where
  "std xs = sqrt (variance xs)"

definition scale :: "real list \<Rightarrow> py_error + real list" where
  "scale xs =
     (if xs = [] then Inl ValueError
      else (let s = (if std xs = 0 then 1 else std xs)
            in Inr (map (\<lambda>x. (x - mean xs) / s) xs)))"

text \<open>The cell that adds the columns \<^verbatim>\<open>parsed_date\<close> and \<^verbatim>\<open>scaled_date\<close>.\<close>

definition add_date_columns :: "item table \<Rightarrow> py_error + dated_item table" where
  "add_date_columns items =
     (case parsed_dates items of
        Inl e \<Rightarrow> Inl e
      | Inr ds \<Rightarrow>
          (case scale (map real_of_int ds) of
             Inl e \<Rightarrow> Inl e
           | Inr sc \<Rightarrow>
               Inr (map (\<lambda>((k, it), p, s).
                          (k, \<lparr>name = name it, date = date it, genre = genre it, url = url it,
                                parsed_date = p, scaled_date = s\<rparr>))
                      (zip items (zip ds sc)))))"

definition ex_raw_items :: "raw_item table" where
  "ex_raw_items =
     [(1, \<lparr>raw_name = Some ''Toy Story (1995)'', raw_date = Some ''01-Jan-1995'',
           raw_genre = None, raw_url = Some ''http://us.imdb.com/M/title-exact?Toy%20Story%20(1995)''\<rparr>),
      (2, \<lparr>raw_name = Some ''unknown'', raw_date = None, raw_genre = None, raw_url = None\<rparr>)]"

section \<open>Similar items\<close>

text \<open>
  The three functions of the similarity cell, as the notebook defines them. The global
  \<^verbatim>\<open>items\<close> that \<^verbatim>\<open>most_similar\<close> reads is a parameter.
\<close>

definition EPSILON :: real where
  "EPSILON = 1 / 10 ^ 7"

definition cosine :: "real list \<Rightarrow> real list \<Rightarrow> real" where
  "cosine x y = 0"

definition euclidean_distances :: "real list \<Rightarrow> real" where
  "euclidean_distances x = 0"

definition most_similar :: "'z item_scheme table \<Rightarrow> int \<Rightarrow> int \<Rightarrow> py_error + string list" where
  "most_similar items idx top_n =
     (let idxs = [1, 2, 3]
      in case loc_all items idxs of Inl e \<Rightarrow> Inl e | Inr rows \<Rightarrow> Inr (map name rows))"

text \<open>
  What the notebook's exercise text asks of these functions, for comparison: the
  euclidean norm, the distance from a point to every item embedding, and the cosine
  similarity of two points.
\<close>

definition spec_norm :: "real list \<Rightarrow> real" where
  "spec_norm v = sqrt (sum_list (map (\<lambda>x. x\<^sup>2) v))"

definition spec_euclidean_distances :: "real list list \<Rightarrow> real list \<Rightarrow> real list" where
  "spec_euclidean_distances item_embeddings x =
     map (\<lambda>e. spec_norm (map2 (-) e x)) item_embeddings"

definition spec_cosine :: "real list \<Rightarrow> real list \<Rightarrow> real" where
  "spec_cosine x y = dot x y / (spec_norm x * spec_norm y)"

section \<open>Properties of the recommendation function\<close>

lemma set_argsort: "set (argsort v) = {0..<length v}"
  by (simp add: argsort_def)

lemma length_argsort: "length (argsort v) = length v"
  by (simp add: argsort_def)

lemma sorted_argsort: "sorted (map (\<lambda>i. v ! i) (argsort v))"
  by (simp add: argsort_def)

lemma rec_items_take: "\<exists>n. rec_items preds k = take n (rev (argsort preds))"
  by (auto simp: rec_items_def py_take_def)

lemma rec_items_bound: "p \<in> set (rec_items preds k) \<Longrightarrow> p < length preds"
proof -
  assume a: "p \<in> set (rec_items preds k)"
  obtain n where "rec_items preds k = take n (rev (argsort preds))"
    using rec_items_take by blast
  with a have "p \<in> set (rev (argsort preds))"
    by (metis in_set_takeD)
  then show ?thesis by (simp add: set_argsort)
qed

lemma rec_items_length: "0 \<le> k \<Longrightarrow> length (rec_items preds k) \<le> nat k"
  by (simp add: rec_items_def py_take_def)

lemma rec_items_sorted: "sorted_wrt (\<ge>) (map (\<lambda>i. preds ! i) (rec_items preds k))"
proof -
  obtain n where n: "rec_items preds k = take n (rev (argsort preds))"
    using rec_items_take by blast
  have "sorted_wrt (\<le>) (map (\<lambda>i. preds ! i) (argsort preds))"
    by (rule sorted_argsort)
  then have "sorted_wrt (\<ge>) (rev (map (\<lambda>i. preds ! i) (argsort preds)))"
    by (simp add: sorted_wrt_rev)
  then have "sorted_wrt (\<ge>) (take n (rev (map (\<lambda>i. preds ! i) (argsort preds))))"
    by (rule sorted_wrt_take)
  then show ?thesis by (simp add: n rev_map take_map)
qed

text \<open>
  What the return statement pairs: the rating at position \<open>i\<close> of the prediction
  vector with the name stored in \<open>items\<close> under the label \<open>i\<close>.
\<close>

lemma name_rating_pairs_Inr:
  "name_rating_pairs items preds rec = Inr ps \<Longrightarrow>
     map snd ps = map (\<lambda>i. preds ! i) rec \<and>
     map (\<lambda>p. Inr p) (map fst ps) = map (\<lambda>i. map_sum id name (loc items (int i))) rec"
proof (induction rec arbitrary: ps)
  case Nil
  then show ?case by simp
next
  case (Cons movie rest)
  then show ?case
    by (auto split: sum.splits if_splits)
qed

lemma length_candidate_ids: "length (candidate_ids rs m uid) \<le> nat (m - 1)"
proof -
  have "length (candidate_ids rs m uid) \<le> length [1..m - 1]"
    unfolding candidate_ids_def by (rule length_filter_le)
  then show ?thesis by simp
qed

lemma loc_all_length: "loc_all tbl ks = Inr rows \<Longrightarrow> length rows = length ks"
  by (induction ks arbitrary: rows) (auto split: sum.splits)

lemma recommend_locals_Inr:
  assumes "recommend_locals predict all_ratings items uid top_n = Inr (cands, preds, rec)"
  shows "\<exists>m. max_item_id all_ratings = Some m \<and> cands = candidate_ids all_ratings m uid"
    and "length preds = length cands"
    and "rec = rec_items preds top_n"
  using assms
  by (auto simp: recommend_locals_def Let_def rating_preds_def dest: loc_all_length
      split: option.splits sum.splits)

text \<open>
  The ranking itself is as the notebook describes it: the ratings returned are in
  non-increasing order, and a non-negative \<open>top_n\<close> bounds their number.
\<close>

lemma recommend_ranked:
  assumes "recommend predict all_ratings items uid top_n = Inr ps"
  shows "sorted_wrt (\<ge>) (map snd ps) \<and> (0 \<le> top_n \<longrightarrow> length ps \<le> nat top_n)"
proof -
  from assms obtain cands preds rec where
    l: "recommend_locals predict all_ratings items uid top_n = Inr (cands, preds, rec)"
    and n: "name_rating_pairs items preds rec = Inr ps"
    by (auto simp: recommend_def split: sum.splits)
  have r: "rec = rec_items preds top_n"
    using l by (rule recommend_locals_Inr)
  have s: "map snd ps = map (\<lambda>i. preds ! i) rec"
    using name_rating_pairs_Inr [OF n] by simp
  have "length ps = length rec"
    using s by (metis length_map)
  then show ?thesis
    using s r rec_items_sorted [of preds top_n] rec_items_length [of top_n preds] by simp
qed

text \<open>
  Claim C1 (the name of each returned pair is the name of the item whose predicted
  rating the pair carries) fails on the code. For user 2, who has rated nothing, the
  candidates are the items 1, 2, 3 with predictions 10, 20, 30. The best prediction, 30,
  is at position 2 of the prediction vector and belongs to item 3 (''C''); the name
  returned with it is the one stored under the label 2, ''B'', whose own prediction is
  20. With the default \<open>top_n = 10\<close> position 0 is reached, no item has the label 0,
  and the call ends in KeyError instead of returning pairs.
\<close>

theorem recommend_name_of_other_item:
  "recommend_locals ex_predict ex_ratings ex_items 2 1 = Inr ([1, 2, 3], [10, 20, 30], [2])
   \<and> recommend ex_predict ex_ratings ex_items 2 1 = Inr [(''B'', 30)]
   \<and> map_sum id name (loc ex_items 3) = Inr ''C''
   \<and> map_sum id name (loc ex_items 2) = Inr ''B''
   \<and> ex_predict 2 2 0 = 20 \<and> ex_predict 2 3 0 = 30
   \<and> recommend ex_predict ex_ratings ex_items 2 10 = Inl KeyError"
  by code_simp

text \<open>
  Claim C8 (no returned item has been rated by the user) fails on the code. User 1 has
  rated the items 1 and 4. The candidates are 2 and 3; the best prediction is at
  position 1 of the prediction vector, and the name returned is the one stored under
  the label 1: ''A'', the name of item 1, which user 1 has rated.
\<close>

theorem recommend_returns_seen_item:
  "seen_movies ex_ratings 1 = [1, 4]
   \<and> recommend_locals ex_predict ex_ratings ex_items 1 1 = Inr ([2, 3], [20, 30], [1])
   \<and> recommend ex_predict ex_ratings ex_items 1 1 = Inr [(''A'', 30)]
   \<and> map (\<lambda>(k, it). (k, name it)) ex_items = [(1, ''A''), (2, ''B''), (3, ''C''), (4, ''D'')]"
  by code_simp

text \<open>
  Claim C9: the candidates of \<^verbatim>\<open>recommend\<close> are the item ids from 1 to
  \<open>max_item_id - 1\<close> that the user has not rated. The item \<open>max_item_id\<close> is never
  among them, so it is never scored, and every position whose name is returned is below
  \<open>max_item_id - 1\<close>; the names \<^verbatim>\<open>recommend\<close> returns are the names stored under
  these positions, so the name stored under the label \<open>max_item_id\<close> is never looked
  up, whether or not the user has rated that item.
\<close>

theorem recommend_never_uses_max_item:
  assumes "max_item_id all_ratings = Some m"
    and "recommend_locals predict all_ratings items uid top_n = Inr (cands, preds, rec)"
  shows "set cands = {i. 1 \<le> i \<and> i \<le> m - 1 \<and> i \<notin> set (seen_movies all_ratings uid)}
         \<and> m \<notin> set cands \<and> (\<forall>p \<in> set rec. int p < m - 1)
         \<and> (\<forall>ps. recommend predict all_ratings items uid top_n = Inr ps \<longrightarrow>
               map (\<lambda>n. Inr n) (map fst ps) = map (\<lambda>p. map_sum id name (loc items (int p))) rec)"
proof -
  have c: "cands = candidate_ids all_ratings m uid"
    using recommend_locals_Inr(1) [OF assms(2)] assms(1) by simp
  have s: "set cands = {i. 1 \<le> i \<and> i \<le> m - 1 \<and> i \<notin> set (seen_movies all_ratings uid)}"
    unfolding c candidate_ids_def by auto
  have b: "\<forall>p \<in> set rec. int p < m - 1"
  proof
    fix p assume "p \<in> set rec"
    then have "p < length preds"
      using recommend_locals_Inr(3) [OF assms(2)] rec_items_bound by blast
    then have "p < length cands"
      using recommend_locals_Inr(2) [OF assms(2)] by simp
    moreover have "length cands \<le> nat (m - 1)"
      unfolding c by (rule length_candidate_ids)
    ultimately show "int p < m - 1" by linarith
  qed
  have n: "\<forall>ps. recommend predict all_ratings items uid top_n = Inr ps \<longrightarrow>
               map (\<lambda>n. Inr n) (map fst ps) = map (\<lambda>p. map_sum id name (loc items (int p))) rec"
  proof (intro allI impI)
    fix ps assume "recommend predict all_ratings items uid top_n = Inr ps"
    then have "name_rating_pairs items preds rec = Inr ps"
      using assms(2) by (simp add: recommend_def)
    then show "map (\<lambda>n. Inr n) (map fst ps) = map (\<lambda>p. map_sum id name (loc items (int p))) rec"
      using name_rating_pairs_Inr by blast
  qed
  from s b n show ?thesis by simp
qed

theorem recommend_never_uses_max_item_witness:
  "max_item_id ex_ratings = Some 4 \<and>
   recommend_locals ex_predict ex_ratings ex_items 2 2 = Inr ([1, 2, 3], [10, 20, 30], [2, 1]) \<and>
   recommend ex_predict ex_ratings ex_items 2 2 = Inr [(''B'', 30), (''A'', 20)] \<and>
   4 \<notin> set (seen_movies ex_ratings 2) \<and>
   set [1, 2, 3 :: int] = {i. 1 \<le> i \<and> i \<le> 4 - 1 \<and> i \<notin> set (seen_movies ex_ratings 2)} \<and>
   (4::int) \<notin> set [1, 2, 3] \<and> list_all (\<lambda>p. int p < 4 - 1) [2, 1]"
proof -
  have m: "max_item_id ex_ratings = Some 4" by code_simp
  have l: "recommend_locals ex_predict ex_ratings ex_items 2 2 = Inr ([1, 2, 3], [10, 20, 30], [2, 1])"
    by code_simp
  have r: "recommend ex_predict ex_ratings ex_items 2 2 = Inr [(''B'', 30), (''A'', 20)]"
    by code_simp
  have s: "4 \<notin> set (seen_movies ex_ratings 2)" by code_simp
  show ?thesis
    using recommend_never_uses_max_item [OF m l] m l r s by (simp add: list_all_iff)
qed

section \<open>Properties of the model graphs\<close>

lemma dot_sum:
  assumes "length xs = n" "length ys = n"
  shows "dot xs ys = sum (\<lambda>k. (xs ! k) * (ys ! k)) {..<n}"
proof -
  have "dot xs ys = sum (\<lambda>k. map2 (*) xs ys ! k) {0..<length (map2 (*) xs ys)}"
    unfolding dot_def by (rule sum_list_sum_nth)
  also have "\<dots> = sum (\<lambda>k. (xs ! k) * (ys ! k)) {0..<n}"
    using assms by (intro sum.cong) auto
  finally show ?thesis by (simp add: lessThan_atLeast0)
qed

lemma cast_int_of_int: "cast_int (of_int i) = i"
  by (simp add: cast_int_def)

lemma embedding_row_ok:
  assumes "embedding_table d n tbl" "0 \<le> i" "i < n"
  shows "embedding_row n tbl (of_int i) = Inr (tbl ! nat i) \<and> length (tbl ! nat i) = d"
proof -
  have l: "nat i < length tbl" using assms by (auto simp: embedding_table_def)
  then have "tbl ! nat i \<in> set tbl" by simp
  then have "length (tbl ! nat i) = d"
    using assms(1) by (auto simp: embedding_table_def list_all_iff)
  then show ?thesis
    using assms l by (simp add: embedding_row_def cast_int_of_int)
qed

lemma eval_embedded:
  assumes "embedding_table d n (emb w nm)" "0 \<le> i" "i < n" "map_of feed inp = Some (of_int i)"
  shows "eval w feed (Flatten (Embedding d n nm (Input inp))) = Inr (Vec (emb w nm ! nat i))"
  using embedding_row_ok [OF assms(1-3)] assms(4) by simp

text \<open>
  Claim C3: for a user id between 0 and \<open>max_user_id\<close> and an item id between 0 and
  \<open>max_item_id\<close>, the matrix-factorisation model predicts the dot product of the
  30-dimensional row of the user embedding table at the user id and the 30-dimensional
  row of the item embedding table at the item id.
\<close>

theorem mf_model_dot:
  assumes "0 \<le> u" "u \<le> max_uid" "0 \<le> i" "i \<le> max_iid"
    and "embedding_table 30 (max_uid + 1) (emb w ''user_embedding'')"
    and "embedding_table 30 (max_iid + 1) (emb w ''item_embedding'')"
  shows "model_predict (mf_model max_uid max_iid) w [of_int u, of_int i] =
           Inr (Vec [sum (\<lambda>k. (emb w ''user_embedding'' ! nat u ! k) * (emb w ''item_embedding'' ! nat i ! k))
                      {..<30}])"
proof -
  let ?feed = "[(''user'', real_of_int u), (''item'', real_of_int i)]"
  have u: "eval w ?feed (mf_user_vecs max_uid) = Inr (Vec (emb w ''user_embedding'' ! nat u))"
    unfolding mf_user_vecs_def using assms by (intro eval_embedded) auto
  have i: "eval w ?feed (mf_item_vecs max_iid) = Inr (Vec (emb w ''item_embedding'' ! nat i))"
    unfolding mf_item_vecs_def using assms by (intro eval_embedded) auto
  have lu: "length (emb w ''user_embedding'' ! nat u) = 30"
    using embedding_row_ok [OF assms(5) assms(1)] assms(2) by simp
  have li: "length (emb w ''item_embedding'' ! nat i) = 30"
    using embedding_row_ok [OF assms(6) assms(3)] assms(4) by simp
  have "model_predict (mf_model max_uid max_iid) w [of_int u, of_int i] =
          eval w ?feed (MergeDot (mf_user_vecs max_uid) (mf_item_vecs max_iid))"
    by (simp add: model_predict_def mf_model_def)
  also have "\<dots> = Inr (Vec [dot (emb w ''user_embedding'' ! nat u) (emb w ''item_embedding'' ! nat i)])"
    using u i lu li by simp
  finally show ?thesis
    by (simp add: dot_sum [OF lu li])
qed

theorem mf_model_dot_witness:
  "embedding_table 30 (1 + 1) (emb ex_mf_weights ''user_embedding'') \<and>
   embedding_table 30 (1 + 1) (emb ex_mf_weights ''item_embedding'') \<and>
   model_predict (mf_model 1 1) ex_mf_weights [of_int 1, of_int 0] = Inr (Vec [180])"
proof -
  have a: "embedding_table 30 (1 + 1) (emb ex_mf_weights ''user_embedding'')"
    by (simp add: embedding_table_def ex_mf_weights_def)
  have b: "embedding_table 30 (1 + 1) (emb ex_mf_weights ''item_embedding'')"
    by (simp add: embedding_table_def ex_mf_weights_def)
  have "model_predict (mf_model 1 1) ex_mf_weights [of_int 1, of_int 0] =
          Inr (Vec [sum (\<lambda>k. (emb ex_mf_weights ''user_embedding'' ! nat 1 ! k)
                               * (emb ex_mf_weights ''item_embedding'' ! nat 0 ! k)) {..<30}])"
    by (rule mf_model_dot [OF _ _ _ _ a b]) simp_all
  then show ?thesis using a b by (simp add: ex_mf_weights_def)
qed

text \<open>
  Claim C5: the model with metadata has exactly three inputs (user id, item id and one
  metadata scalar, the scaled release date), and its first dense layer is applied to
  the concatenation of the user embedding row, the item embedding row and the metadata
  scalar, 65 numbers in all; the prediction is the three dense layers applied to that
  vector (dropout does nothing at prediction time).
\<close>

theorem hybrid_model_concat:
  assumes "0 \<le> u" "u \<le> max_uid" "0 \<le> i" "i \<le> max_iid"
    and "embedding_table 32 (max_uid + 1) (emb w ''user_embedding'')"
    and "embedding_table 32 (max_iid + 1) (emb w ''item_embedding'')"
  shows "minputs (hybrid_model max_uid max_iid) = [Input ''user'', Input ''item'', Input ''meta_item'']
    \<and> moutput (hybrid_model max_uid max_iid) =
          Dense 1 Linear 2 (Dense 32 Relu 1 (Dropout (1 / 2)
            (Dense 64 Relu 0 (hybrid_input_vecs max_uid max_iid))))
    \<and> eval w [(''user'', of_int u), (''item'', of_int i), (''meta_item'', meta)]
          (hybrid_input_vecs max_uid max_iid) =
          Inr (Vec (emb w ''user_embedding'' ! nat u @ emb w ''item_embedding'' ! nat i @ [meta]))
    \<and> length (emb w ''user_embedding'' ! nat u @ emb w ''item_embedding'' ! nat i @ [meta]) = 65
    \<and> model_predict (hybrid_model max_uid max_iid) w [of_int u, of_int i, meta] =
          (case apply_dense w 0 64 Relu
                  (emb w ''user_embedding'' ! nat u @ emb w ''item_embedding'' ! nat i @ [meta]) of
             Inl e \<Rightarrow> Inl e
           | Inr h1 \<Rightarrow>
               (case apply_dense w 1 32 Relu h1 of
                  Inl e \<Rightarrow> Inl e
                | Inr h2 \<Rightarrow>
                    (case apply_dense w 2 1 Linear h2 of
                       Inl e \<Rightarrow> Inl e
                     | Inr y \<Rightarrow> Inr (Vec y))))
    \<and> (\<forall>xs. length xs \<noteq> 3 \<longrightarrow> model_predict (hybrid_model max_uid max_iid) w xs = Inl ValueError)"
proof -
  let ?feed = "[(''user'', real_of_int u), (''item'', real_of_int i), (''meta_item'', meta)]"
  let ?U = "emb w ''user_embedding'' ! nat u"
  let ?I = "emb w ''item_embedding'' ! nat i"
  have u: "eval w ?feed (hybrid_user_vecs max_uid) = Inr (Vec ?U)"
    unfolding hybrid_user_vecs_def using assms by (intro eval_embedded) auto
  have i: "eval w ?feed (hybrid_item_vecs max_iid) = Inr (Vec ?I)"
    unfolding hybrid_item_vecs_def using assms by (intro eval_embedded) auto
  have lu: "length ?U = 32"
    using embedding_row_ok [OF assms(5) assms(1)] assms(2) by simp
  have li: "length ?I = 32"
    using embedding_row_ok [OF assms(6) assms(3)] assms(4) by simp
  have c: "eval w ?feed (hybrid_input_vecs max_uid max_iid) = Inr (Vec (?U @ ?I @ [meta]))"
    unfolding hybrid_input_vecs_def using u i by (simp add: as_vec_def)
  have p: "model_predict (hybrid_model max_uid max_iid) w [of_int u, of_int i, meta] =
             eval w ?feed (moutput (hybrid_model max_uid max_iid))"
    by (simp add: model_predict_def hybrid_model_def)
  have e: "eval w ?feed (moutput (hybrid_model max_uid max_iid)) =
          (case apply_dense w 0 64 Relu (?U @ ?I @ [meta]) of
             Inl e \<Rightarrow> Inl e
           | Inr h1 \<Rightarrow>
               (case apply_dense w 1 32 Relu h1 of
                  Inl e \<Rightarrow> Inl e
                | Inr h2 \<Rightarrow>
                    (case apply_dense w 2 1 Linear h2 of
                       Inl e \<Rightarrow> Inl e
                     | Inr y \<Rightarrow> Inr (Vec y))))"
    using c by (simp add: hybrid_model_def split: sum.splits)
  have n: "\<forall>xs. length xs \<noteq> 3 \<longrightarrow> model_predict (hybrid_model max_uid max_iid) w xs = Inl ValueError"
    by (simp add: model_predict_def hybrid_model_def)
  have s: "minputs (hybrid_model max_uid max_iid) = [Input ''user'', Input ''item'', Input ''meta_item'']"
    by (simp add: hybrid_model_def)
  have o: "moutput (hybrid_model max_uid max_iid) =
          Dense 1 Linear 2 (Dense 32 Relu 1 (Dropout (1 / 2)
            (Dense 64 Relu 0 (hybrid_input_vecs max_uid max_iid))))"
    by (simp add: hybrid_model_def)
  show ?thesis
    using s o c lu li p e n by simp
qed


lemma dot_replicate: "length v = n \<Longrightarrow> dot v (replicate n c) = c * sum_list v"
proof (induction v arbitrary: n)
  case Nil
  then show ?case by (simp add: dot_def)
next
  case (Cons x v)
  then obtain m where m: "n = Suc m" "length v = m" by (cases n) auto
  have "dot (x # v) (replicate (Suc m) c) = x * c + dot v (replicate m c)"
    by (simp add: dot_def)
  then show ?case using Cons.IH [OF m(2)] m by (simp add: algebra_simps)
qed

lemma apply_dense_constant:
  assumes "dense w k = (replicate n (replicate m c), replicate m b)" "length v = n"
  shows "apply_dense w k m a v = Inr (replicate m (activate a (c * sum_list v + b)))"
proof -
  have "map (\<lambda>j. activate a (dot v (map (\<lambda>row. row ! j) (replicate n (replicate m c)))
                        + replicate m b ! j)) [0..<m]
        = map (\<lambda>j. activate a (c * sum_list v + b)) [0..<m]"
    using assms(2) by (intro map_cong) (auto simp: dot_replicate)
  also have "\<dots> = replicate m (activate a (c * sum_list v + b))"
    by (simp add: map_replicate_const)
  finally show ?thesis
    using assms by (simp add: apply_dense_def list_all_iff)
qed

theorem hybrid_model_concat_witness:
  "embedding_table 32 (1 + 1) (emb ex_hybrid_weights ''user_embedding'') \<and>
   embedding_table 32 (1 + 1) (emb ex_hybrid_weights ''item_embedding'') \<and>
   eval ex_hybrid_weights [(''user'', of_int 1), (''item'', of_int 0), (''meta_item'', 1 / 4)]
     (hybrid_input_vecs 1 1) = Inr (Vec (replicate 32 2 @ replicate 32 3 @ [1 / 4])) \<and>
   model_predict (hybrid_model 1 1) ex_hybrid_weights [of_int 1, of_int 0, 1 / 4] = Inr (Vec [656325]) \<and>
   model_predict (hybrid_model 1 1) ex_hybrid_weights [of_int 1, of_int 0] = Inl ValueError"
proof -
  have a: "embedding_table 32 (1 + 1) (emb ex_hybrid_weights ''user_embedding'')"
    by (simp add: embedding_table_def ex_hybrid_weights_def)
  have b: "embedding_table 32 (1 + 1) (emb ex_hybrid_weights ''item_embedding'')"
    by (simp add: embedding_table_def ex_hybrid_weights_def)
  have d0: "apply_dense ex_hybrid_weights 0 64 Relu (replicate 32 2 @ replicate 32 3 @ [1 / 4])
              = Inr (replicate 64 (641 / 4))"
    by (subst apply_dense_constant [where n = 65 and c = 1 and b = 0])
       (simp_all add: ex_hybrid_weights_def activate_def sum_list_replicate)
  have d1: "apply_dense ex_hybrid_weights 1 32 Relu (replicate 64 (641 / 4)) = Inr (replicate 32 10255)"
    by (subst apply_dense_constant [where n = 64 and c = 1 and b = "- 1"])
       (simp_all add: ex_hybrid_weights_def activate_def sum_list_replicate)
  have d2: "apply_dense ex_hybrid_weights 2 1 Linear (replicate 32 10255) = Inr [656325]"
    by (subst apply_dense_constant [where n = 32 and c = 2 and b = 5])
       (simp_all add: ex_hybrid_weights_def activate_def sum_list_replicate)
  have d1': "apply_dense ex_hybrid_weights (Suc 0) 32 Relu (replicate 64 (641 / 4)) = Inr (replicate 32 10255)"
    using d1 by simp
  have d2': "apply_dense ex_hybrid_weights 2 (Suc 0) Linear (replicate 32 10255) = Inr [656325]"
    using d2 by simp
  have e: "emb ex_hybrid_weights ''user_embedding'' ! Suc 0 = replicate 32 2"
          "emb ex_hybrid_weights ''item_embedding'' ! 0 = replicate 32 3"
    by (simp_all add: ex_hybrid_weights_def)
  have "0 \<le> (1::int)" "(1::int) \<le> 1" "0 \<le> (0::int)" "(0::int) \<le> 1" by simp_all
  from hybrid_model_concat [OF this a b, of "1 / 4"] show ?thesis
    using a b by (simp add: e d0 d1 d2 d1' d2')
qed

section \<open>Properties of the download cell\<close>

lemma ML_100K_FILENAME_eq: "ML_100K_FILENAME = ''ml-100k.zip''"
  by (simp add: ML_100K_FILENAME_def ML_100K_URL_def rsplit1_def)

lemma filename_not_folder: "ML_100K_FILENAME \<noteq> ML_100K_FOLDER"
  by (simp add: ML_100K_FILENAME_eq ML_100K_FOLDER_def)

lemma download_step_cases:
  "download_step fetch d = (d1, acts, r) \<Longrightarrow>
     (list_ex is_download acts \<longleftrightarrow> \<not> exists_path d ML_100K_FILENAME)
     \<and> list_all (\<lambda>a. \<not> is_extract a) acts
     \<and> (exists_path d ML_100K_FILENAME \<longrightarrow> d1 = d \<and> acts = [] \<and> r = None)
     \<and> exists_path d1 ML_100K_FOLDER = exists_path d ML_100K_FOLDER
     \<and> (r = None \<longrightarrow>
          d1 ML_100K_FILENAME =
            (if exists_path d ML_100K_FILENAME then d ML_100K_FILENAME
             else map_option File (fetch ML_100K_URL)))
     \<and> (r = None \<longleftrightarrow> exists_path d ML_100K_FILENAME \<or> fetch ML_100K_URL \<noteq> None)"
  using filename_not_folder
  by (auto simp: download_step_def Let_def is_download_def is_extract_def exists_path_def
      split: if_splits option.splits)

lemma extract_step_cases:
  "extract_step unzip d = (d2, acts, r) \<Longrightarrow>
     (list_ex is_extract acts \<longleftrightarrow>
        \<not> exists_path d ML_100K_FOLDER
        \<and> (\<exists>bytes. d ML_100K_FILENAME = Some (File bytes) \<and> unzip bytes \<noteq> None))
     \<and> list_all (\<lambda>a. \<not> is_download a) acts
     \<and> (exists_path d ML_100K_FOLDER \<longrightarrow> d2 = d \<and> acts = [] \<and> r = None)"
  by (auto simp: extract_step_def Let_def is_download_def is_extract_def exists_path_def
      split: if_splits option.splits entry.splits)

text \<open>
  Claim C6: the archive is downloaded only when no file of its name exists in the
  working directory (and then it is), the archive is extracted only when the data set
  folder does not exist (and then it is, when the archive that is there or has just been
  downloaded opens as a zip archive), and when both exist the cell calls neither
  \<^verbatim>\<open>urlretrieve\<close> nor \<^verbatim>\<open>extractall\<close>, prints nothing and leaves the
  directory as it was.
\<close>

theorem fetch_dataset_only_when_absent:
  assumes "fetch_dataset fetch unzip d = (d', acts, r)"
  shows "(list_ex is_download acts \<longleftrightarrow> \<not> exists_path d ML_100K_FILENAME)
     \<and> (list_ex is_extract acts \<longrightarrow>
          \<not> exists_path d ML_100K_FOLDER
          \<and> (exists_path d ML_100K_FILENAME \<or> fetch ML_100K_URL \<noteq> None))
     \<and> (list_ex is_extract acts \<longleftrightarrow>
          \<not> exists_path d ML_100K_FOLDER
          \<and> (\<exists>bytes. (if exists_path d ML_100K_FILENAME then d ML_100K_FILENAME
                        else map_option File (fetch ML_100K_URL)) = Some (File bytes)
                     \<and> unzip bytes \<noteq> None))
     \<and> (exists_path d ML_100K_FILENAME \<and> exists_path d ML_100K_FOLDER
          \<longrightarrow> d' = d \<and> acts = [] \<and> r = None)"
proof -
  obtain d1 acts1 r1 where s1: "download_step fetch d = (d1, acts1, r1)"
    by (metis prod_cases3)
  note c1 = download_step_cases [OF s1]
  show ?thesis
  proof (cases r1)
    case (Some e)
    then have "d' = d1" "acts = acts1" "r = Some e"
      using assms s1 by (simp_all add: fetch_dataset_def)
    then show ?thesis
      using c1 Some by (auto simp: list_ex_iff list_all_iff exists_path_def)
  next
    case None
    obtain d2 acts2 r2 where s2: "extract_step unzip d1 = (d2, acts2, r2)"
      by (metis prod_cases3)
    note c2 = extract_step_cases [OF s2]
    have e: "d' = d2" "acts = acts1 @ acts2" "r = r2"
      using assms s1 s2 None by (simp_all add: fetch_dataset_def)
    have f: "d1 ML_100K_FILENAME =
            (if exists_path d ML_100K_FILENAME then d ML_100K_FILENAME
             else map_option File (fetch ML_100K_URL))"
      using c1 None by blast
    have x: "list_ex is_extract acts \<longleftrightarrow> list_ex is_extract acts2"
      using c1 e by (auto simp: list_ex_iff list_all_iff)
    have y: "list_ex is_download acts \<longleftrightarrow> list_ex is_download acts1"
      using c2 e by (auto simp: list_ex_iff list_all_iff)
    have g: "exists_path d ML_100K_FILENAME \<or> fetch ML_100K_URL \<noteq> None"
      using c1 None by blast
    have p1: "list_ex is_download acts \<longleftrightarrow> \<not> exists_path d ML_100K_FILENAME"
      using y c1 by blast
    have p3: "list_ex is_extract acts \<longleftrightarrow>
          \<not> exists_path d ML_100K_FOLDER
          \<and> (\<exists>bytes. (if exists_path d ML_100K_FILENAME then d ML_100K_FILENAME
                        else map_option File (fetch ML_100K_URL)) = Some (File bytes)
                     \<and> unzip bytes \<noteq> None)"
      using x c2 c1 f by simp
    have p2: "list_ex is_extract acts \<longrightarrow>
          \<not> exists_path d ML_100K_FOLDER
          \<and> (exists_path d ML_100K_FILENAME \<or> fetch ML_100K_URL \<noteq> None)"
      using p3 g by blast
    have p4: "exists_path d ML_100K_FILENAME \<and> exists_path d ML_100K_FOLDER
          \<longrightarrow> d' = d \<and> acts = [] \<and> r = None"
      using c1 c2 e by auto
    show ?thesis using p1 p2 p3 p4 by blast
  qed
qed

theorem fetch_dataset_only_when_absent_witness:
  "exists_path ex_directory ML_100K_FILENAME \<and> exists_path ex_directory ML_100K_FOLDER \<and>
   fetch_dataset (\<lambda>u. Some ''PK-new'') (\<lambda>b. Some [(''ml-100k'', Dir)]) ex_directory
     = (ex_directory, [], None) \<and>
   \<not> list_ex is_download [] \<and> \<not> list_ex is_extract [] \<and>
   \<not> exists_path Map.empty ML_100K_FILENAME \<and> \<not> exists_path Map.empty ML_100K_FOLDER \<and>
   map is_download
     (fst (snd (fetch_dataset (\<lambda>u. Some ''PK-new'') (\<lambda>b. Some [(''ml-100k'', Dir)]) Map.empty)))
     = [False, True, False, False] \<and>
   map is_extract
     (fst (snd (fetch_dataset (\<lambda>u. Some ''PK-new'') (\<lambda>b. Some [(''ml-100k'', Dir)]) Map.empty)))
     = [False, False, False, True]"
proof -
  have a: "exists_path ex_directory ML_100K_FILENAME"
    by (simp add: exists_path_def ex_directory_def ML_100K_FILENAME_eq)
  have b: "exists_path ex_directory ML_100K_FOLDER"
    by (simp add: exists_path_def ex_directory_def ML_100K_FOLDER_def)
  obtain d' acts r where
    f: "fetch_dataset (\<lambda>u. Some ''PK-new'') (\<lambda>b. Some [(''ml-100k'', Dir)]) ex_directory = (d', acts, r)"
    by (metis prod_cases3)
  from fetch_dataset_only_when_absent [OF f] a b have "d' = ex_directory \<and> acts = [] \<and> r = None"
    by blast
  with f have k: "fetch_dataset (\<lambda>u. Some ''PK-new'') (\<lambda>b. Some [(''ml-100k'', Dir)]) ex_directory
     = (ex_directory, [], None)" by simp
  have e: "\<not> exists_path Map.empty ML_100K_FILENAME" "\<not> exists_path Map.empty ML_100K_FOLDER"
    by (simp_all add: exists_path_def)
  have n: "map is_download
     (fst (snd (fetch_dataset (\<lambda>u. Some ''PK-new'') (\<lambda>b. Some [(''ml-100k'', Dir)]) Map.empty)))
     = [False, True, False, False]"
    "map is_extract
     (fst (snd (fetch_dataset (\<lambda>u. Some ''PK-new'') (\<lambda>b. Some [(''ml-100k'', Dir)]) Map.empty)))
     = [False, False, False, True]"
    using filename_not_folder
    by (simp_all add: fetch_dataset_def download_step_def extract_step_def exists_path_def
        is_download_def is_extract_def Let_def)
  show ?thesis using a b k e n by simp
qed

section \<open>Properties of the train/test split\<close>

lemma is_permutation_props:
  assumes "is_permutation n p"
  shows "distinct p" "set p = {0..<n}" "length p = n"
proof -
  have s: "sort p = [0..<n]" using assms by (simp add: is_permutation_def)
  have "distinct (sort p)" unfolding s by simp
  then show "distinct p" by simp
  have "set (sort p) = {0..<n}" unfolding s by simp
  then show "set p = {0..<n}" by simp
  have "length (sort p) = n" unfolding s by simp
  then show "length p = n" by simp
qed

lemma take_rows_append: "take_rows rows (a @ b) = take_rows rows a @ take_rows rows b"
  by (simp add: take_rows_def)

lemma split_indices:
  assumes "length p = n"
  shows "take k p @ take (n - k) (drop k p) = p"
proof -
  have "take (n - k) (drop k p) = drop k p"
    using assms by simp
  then show ?thesis by simp
qed

lemma train_test_split_parts:
  assumes "is_permutation (length rows) perm" "train_test_split rows perm = (train, test)"
  shows "test @ train = take_rows rows perm"
    and "length test = min (n_test_of (length rows)) (length rows)"
    and "length train = length rows - n_test_of (length rows)"
proof -
  let ?n = "length rows" and ?k = "n_test_of (length rows)"
  have l: "length perm = ?n" using assms(1) by (rule is_permutation_props)
  have te: "test = take_rows rows (take ?k perm)"
    and tr: "train = take_rows rows (take (?n - ?k) (drop ?k perm))"
    using assms(2) by (simp_all add: train_test_split_def Let_def)
  show "test @ train = take_rows rows perm"
    unfolding te tr by (simp only: take_rows_append [symmetric] split_indices [OF l])
  show "length test = min ?k ?n"
    unfolding te using l by (simp add: take_rows_def)
  show "length train = ?n - ?k"
    unfolding tr using l by (simp add: take_rows_def)
qed

lemma take_rows_perm:
  assumes "is_permutation (length rows) perm"
  shows "distinct (map fst (take_rows rows perm))"
    and "set (take_rows rows perm) = {(int i, rows ! i) |i. i < length rows}"
proof -
  have "map fst (take_rows rows perm) = map int perm"
    by (simp add: take_rows_def comp_def)
  moreover have "distinct (map int perm)"
    using is_permutation_props(1) [OF assms] by (simp add: distinct_map)
  ultimately show "distinct (map fst (take_rows rows perm))" by simp
  show "set (take_rows rows perm) = {(int i, rows ! i) |i. i < length rows}"
    using is_permutation_props(2) [OF assms] by (auto simp: take_rows_def)
qed

lemma bit_length_pos: "0 < x \<Longrightarrow> bit_length x = Suc (bit_length (x div 2))"
  by (subst bit_length.simps) simp

lemma bit_length_nonpos: "x \<le> 0 \<Longrightarrow> bit_length x = 0"
  by (subst bit_length.simps) simp

lemma bit_length_bounds:
  "0 < x \<Longrightarrow> 2 ^ (bit_length x - 1) \<le> x \<and> x < 2 ^ bit_length x"
proof (induction x rule: bit_length.induct)
  case (1 n)
  have b: "bit_length n = Suc (bit_length (n div 2))"
    using "1.prems" by (rule bit_length_pos)
  show ?case
  proof (cases "0 < n div 2")
    case False
    then have "n = 1" using "1.prems" by linarith
    moreover have "bit_length (n div 2) = 0"
      using False by (simp add: bit_length_nonpos)
    ultimately show ?thesis using b by simp
  next
    case True
    let ?b = "bit_length (n div 2)"
    have ih: "2 ^ (?b - 1) \<le> n div 2 \<and> n div 2 < 2 ^ ?b"
      using "1.IH" "1.prems" True by simp
    have bp: "0 < ?b" using True by (simp add: bit_length_pos)
    then have p: "(2::int) ^ ?b = 2 * 2 ^ (?b - 1)"
      by (cases ?b) simp_all
    have "2 ^ ?b \<le> n" using ih p by linarith
    moreover have "n < 2 * 2 ^ ?b" using ih by linarith
    ultimately show ?thesis using b by simp
  qed
qed

lemma bit_length_le:
  assumes "x < 2 ^ j"
  shows "bit_length x \<le> j"
proof (cases "0 < x")
  case False
  then show ?thesis by (simp add: bit_length_nonpos)
next
  case True
  have "(2::int) ^ (bit_length x - 1) < 2 ^ j"
    using bit_length_bounds [OF True] assms by linarith
  then have "bit_length x - 1 < j" by simp
  then show ?thesis by linarith
qed

lemma round53_exact: "x < 2 ^ 53 \<Longrightarrow> round53 x = x"
  using bit_length_le [of x 53] by (simp add: round53_def Let_def)

lemma round53_cases:
  assumes "0 \<le> x"
  shows "(bit_length x \<le> 53 \<and> round53 x = x) \<or>
         (\<exists>sh. 0 < sh \<and> bit_length x = 53 + sh \<and> 2 ^ sh dvd round53 x
               \<and> \<bar>round53 x - x\<bar> \<le> 2 ^ (sh - 1) \<and> x < 2 ^ (53 + sh))"
proof (cases "bit_length x \<le> 53")
  case True
  then show ?thesis by (simp add: round53_def Let_def)
next
  case False
  define sh where "sh = bit_length x - 53"
  have sh: "0 < sh" "bit_length x = 53 + sh" using False by (simp_all add: sh_def)
  have xp: "0 < x" using False assms by (cases "x = 0") (simp_all add: bit_length_nonpos)
  define q where "q = x div 2 ^ sh"
  define r where "r = x mod 2 ^ sh"
  define h where "h = (2::int) ^ (sh - 1)"
  have two: "(2::int) ^ sh = 2 * h"
    using sh(1) unfolding h_def by (cases sh) simp_all
  have x: "x = q * 2 ^ sh + r" unfolding q_def r_def by (rule div_mult_mod_eq [symmetric])
  have r: "0 \<le> r" "r < 2 ^ sh" by (simp_all add: r_def)
  have y: "round53 x = (if h < r \<or> (r = h \<and> odd q) then q + 1 else q) * 2 ^ sh"
    using False by (simp add: round53_def Let_def sh_def q_def r_def h_def)
  have d: "2 ^ sh dvd round53 x" unfolding y by simp
  have e: "\<bar>round53 x - x\<bar> \<le> h"
  proof (cases "h < r \<or> (r = h \<and> odd q)")
    case True
    then have "round53 x = q * 2 ^ sh + 2 ^ sh" by (simp add: y algebra_simps)
    then show ?thesis using x r two True by linarith
  next
    case False
    then have "round53 x = q * 2 ^ sh" by (simp add: y)
    then show ?thesis using x r two False by linarith
  qed
  have u: "x < 2 ^ (53 + sh)" using bit_length_bounds [OF xp] sh(2) by simp
  show ?thesis using sh d e u unfolding h_def by blast
qed


lemma div_between:
  fixes a b q :: int
  assumes "q * b \<le> a" "a < (q + 1) * b"
  shows "a div b = q"
proof -
  have b: "0 < b" using assms by (simp add: algebra_simps)
  define r where "r = a - q * b"
  have r: "0 \<le> r" "r < b" using assms by (simp_all add: r_def algebra_simps)
  have "a = r + q * b" by (simp add: r_def)
  then have "a div b = (r + q * b) div b" by simp
  also have "\<dots> = q + r div b" using b by simp
  also have "r div b = 0" using r by simp
  finally show ?thesis by simp
qed

lemma n_test_of_ceiling:
  assumes "n < 2 ^ 32"
  shows "n_test_of n = (n + 4) div 5"
proof -
  define N where "N = int n"
  define x where "x = N * 3602879701896397"
  define y where "y = round53 x"
  define k where "k = N div 5"
  define m where "m = N mod 5"
  have N: "0 \<le> N" "N < 4294967296" using assms by (simp_all add: N_def)
  have km: "N = 5 * k + m" "0 \<le> m" "m < 5" "0 \<le> k"
    using N by (simp_all add: k_def m_def)
  have p54: "(2::int) ^ 54 = 18014398509481984" by simp
  have "N < 2 ^ 53" using N by simp
  then have rn: "round53 N = N" by (rule round53_exact)
  have nt: "n_test_of n = nat ((y + 18014398509481983) div 18014398509481984)"
    by (simp add: n_test_of_def y_def x_def N_def [symmetric] rn)
  have x5: "5 * x = N * 18014398509481984 + N" by (simp add: x_def)
  have x0: "0 \<le> x" using N by (simp add: x_def)
  have "x < 77371252455336267181195264" using N by (simp add: x_def)
  then have xb: "x < 2 ^ 86" by simp
  have bl: "bit_length x \<le> 86" using xb by (rule bit_length_le)
  have goal: "(y + 18014398509481983) div 18014398509481984 = (N + 4) div 5"
  proof (cases "m = 0")
    case False
    have err: "\<bar>y - x\<bar> \<le> 4294967296"
    proof -
      from round53_cases [OF x0] show ?thesis
      proof
        assume "bit_length x \<le> 53 \<and> round53 x = x"
        then show ?thesis by (simp add: y_def)
      next
        assume "\<exists>sh. 0 < sh \<and> bit_length x = 53 + sh \<and> 2 ^ sh dvd round53 x
               \<and> \<bar>round53 x - x\<bar> \<le> 2 ^ (sh - 1) \<and> x < 2 ^ (53 + sh)"
        then obtain sh where sh: "0 < sh" "bit_length x = 53 + sh"
          "\<bar>round53 x - x\<bar> \<le> 2 ^ (sh - 1)" by blast
        have "sh - 1 \<le> 32" using sh(2) bl by linarith
        then have "(2::int) ^ (sh - 1) \<le> 2 ^ 32"
          by (intro power_increasing) simp_all
        then have "(2::int) ^ (sh - 1) \<le> 4294967296" by simp
        then show ?thesis using sh(3) by (simp add: y_def)
      qed
    qed
    have lo: "k * 18014398509481984 < y" using err x5 km False N by linarith
    have hi: "y \<le> k * 18014398509481984 + 18014398509481984"
      using err x5 km False N by linarith
    have "(y + 18014398509481983) div 18014398509481984 = k + 1"
      by (rule div_between) (use lo hi in \<open>simp_all add: algebra_simps\<close>)
    moreover have "(N + 4) div 5 = k + 1"
      by (rule div_between) (use km False in \<open>simp_all add: algebra_simps\<close>)
    ultimately show ?thesis by simp
  next
    case True
    then have N5: "N = 5 * k" using km by simp
    have xk: "x = k * 18014398509481984 + k" using x5 N5 by linarith
    have "y = k * 18014398509481984"
    proof -
      from round53_cases [OF x0] show ?thesis
      proof
        assume e: "bit_length x \<le> 53 \<and> round53 x = x"
        show ?thesis
        proof (cases "k = 0")
          case True
          then show ?thesis using e xk by (simp add: y_def)
        next
          case False
          then have xp: "0 < x" and big: "18014398509481984 \<le> x" using km xk by linarith+
          have "(2::int) ^ bit_length x \<le> 2 ^ 53"
            using e by (intro power_increasing) simp_all
          then have "x < 2 ^ 53" using bit_length_bounds [OF xp] by linarith
          then have "x < 9007199254740992" by simp
          then show ?thesis using big by linarith
        qed
      next
        assume "\<exists>sh. 0 < sh \<and> bit_length x = 53 + sh \<and> 2 ^ sh dvd round53 x
               \<and> \<bar>round53 x - x\<bar> \<le> 2 ^ (sh - 1) \<and> x < 2 ^ (53 + sh)"
        then obtain sh where sh: "0 < sh" "bit_length x = 53 + sh" "2 ^ sh dvd y"
          "\<bar>y - x\<bar> \<le> 2 ^ (sh - 1)" "x < 2 ^ (53 + sh)" unfolding y_def by blast
        have s54: "sh \<le> 54" using sh(2) bl by linarith
        define t where "t = (2::int) ^ (sh - 1)"
        have two: "(2::int) ^ sh = 2 * t"
          using sh(1) unfolding t_def by (cases sh) simp_all
        have p: "(2::int) ^ (53 + sh) = 18014398509481984 * t"
          using sh(1) unfolding t_def by (cases sh) (simp_all add: power_add)
        have kl: "k < t" using sh(5) xk km p by linarith
        have "(2::int) ^ sh dvd 2 ^ 54" using s54 by (rule le_imp_power_dvd)
        then have "(2::int) ^ sh dvd 18014398509481984" by simp
        then have d2: "(2::int) ^ sh dvd k * 18014398509481984" by (rule dvd_mult)
        have d: "2 ^ sh dvd y - k * 18014398509481984" using sh(3) d2 by (rule dvd_diff)
        have lt: "\<bar>y - k * 18014398509481984\<bar> < 2 ^ sh"
          using sh(4) xk kl km two unfolding t_def [symmetric] by linarith
        have "y - k * 18014398509481984 = 0"
        proof (rule ccontr)
          assume "y - k * 18014398509481984 \<noteq> 0"
          then have "\<bar>(2::int) ^ sh\<bar> \<le> \<bar>y - k * 18014398509481984\<bar>"
            using d by (rule dvd_imp_le_int)
          then show False using lt by simp
        qed
        then show ?thesis by simp
      qed
    qed
    then have "(y + 18014398509481983) div 18014398509481984 = k"
      by (intro div_between) (simp_all add: algebra_simps)
    moreover have "(N + 4) div 5 = k"
      by (rule div_between) (use N5 in \<open>simp_all add: algebra_simps\<close>)
    ultimately show ?thesis by simp
  qed
  have "nat ((N + 4) div 5) = (n + 4) div 5"
    unfolding N_def by (simp add: nat_div_distrib nat_add_distrib)
  then show ?thesis using nt goal by simp
qed

lemma n_test_of_100000: "n_test_of 100000 = 20000"
proof -
  have "(100000::nat) < 2 ^ 32" by simp
  then have "n_test_of 100000 = (100000 + 4) div 5" by (rule n_test_of_ceiling)
  then show ?thesis by simp
qed

lemma n_test_of_le:
  assumes "n < 2 ^ 32"
  shows "n_test_of n \<le> n"
  unfolding n_test_of_ceiling [OF assms] by linarith

text \<open>
  Claim C4: when the permutation drawn is a permutation of the row positions,
  \<^verbatim>\<open>ratings_train\<close> and \<^verbatim>\<open>ratings_test\<close> are disjoint and every row of
  \<^verbatim>\<open>all_ratings\<close> is in exactly one of them. \<^verbatim>\<open>ratings_test\<close> holds
  \<open>ceil(0.2 * n)\<close> of the \<open>n\<close> rows, the product in double precision, and
  \<^verbatim>\<open>ratings_train\<close> the others. For a table of fewer than \<open>2^32\<close> rows that is 20% of
  the rows rounded up to a whole row, and exactly 20% and 80% when the number of rows is a
  multiple of five, as it is for the 100000 rows of the MovieLens file: 20000 and 80000.
\<close>

theorem train_test_split_partition:
  assumes "is_permutation (length all_ratings) perm"
    and "train_test_split all_ratings perm = (ratings_train, ratings_test)"
  shows "distinct (map fst (ratings_train @ ratings_test))
     \<and> set (map fst ratings_train) \<inter> set (map fst ratings_test) = {}
     \<and> set ratings_train \<union> set ratings_test = {(int i, all_ratings ! i) |i. i < length all_ratings}
     \<and> length ratings_test = min (n_test_of (length all_ratings)) (length all_ratings)
     \<and> length ratings_train = length all_ratings - n_test_of (length all_ratings)
     \<and> n_test_of 100000 = 20000
     \<and> (length all_ratings < 2 ^ 32 \<longrightarrow>
          length ratings_test = (length all_ratings + 4) div 5
          \<and> length ratings_train + length ratings_test = length all_ratings)
     \<and> (length all_ratings < 2 ^ 32 \<and> 5 dvd length all_ratings \<longrightarrow>
          5 * length ratings_test = length all_ratings
          \<and> 5 * length ratings_train = 4 * length all_ratings)
     \<and> (length all_ratings = 100000 \<longrightarrow>
          length ratings_test = 20000 \<and> length ratings_train = 80000)"
proof -
  let ?n = "length all_ratings"
  note p = train_test_split_parts [OF assms]
  have d: "distinct (map fst (ratings_test @ ratings_train))"
    unfolding p(1) using assms(1) by (rule take_rows_perm)
  have s: "set (ratings_test @ ratings_train) = {(int i, all_ratings ! i) |i. i < ?n}"
    unfolding p(1) using assms(1) by (rule take_rows_perm)
  have d': "distinct (map fst (ratings_train @ ratings_test))"
    using d by auto
  have i: "set (map fst ratings_train) \<inter> set (map fst ratings_test) = {}"
    using d by auto
  have s': "set ratings_train \<union> set ratings_test = {(int i, all_ratings ! i) |i. i < ?n}"
    using s by auto
  have c: "?n < 2 ^ 32 \<longrightarrow>
          length ratings_test = (?n + 4) div 5 \<and> length ratings_train + length ratings_test = ?n"
  proof
    assume b: "?n < 2 ^ 32"
    have "n_test_of ?n = (?n + 4) div 5" using b by (rule n_test_of_ceiling)
    moreover have "n_test_of ?n \<le> ?n" using b by (rule n_test_of_le)
    ultimately show "length ratings_test = (?n + 4) div 5
                     \<and> length ratings_train + length ratings_test = ?n"
      using p(2) p(3) by simp
  qed
  have e: "?n < 2 ^ 32 \<and> 5 dvd ?n \<longrightarrow>
          5 * length ratings_test = ?n \<and> 5 * length ratings_train = 4 * ?n"
  proof
    assume b: "?n < 2 ^ 32 \<and> 5 dvd ?n"
    then obtain k where k: "?n = 5 * k" by (auto elim: dvdE)
    have t: "length ratings_test = (?n + 4) div 5"
      and u: "length ratings_train + length ratings_test = ?n"
      using c b by simp_all
    have "length ratings_test = k" unfolding t k by simp
    then show "5 * length ratings_test = ?n \<and> 5 * length ratings_train = 4 * ?n"
      using u k by linarith
  qed
  have f: "?n = 100000 \<longrightarrow> length ratings_test = 20000 \<and> length ratings_train = 80000"
  proof
    assume n: "?n = 100000"
    have "n_test_of ?n = 20000" unfolding n by (rule n_test_of_100000)
    then show "length ratings_test = 20000 \<and> length ratings_train = 80000"
      using p(2) p(3) n by simp
  qed
  show ?thesis
    using d' i s' p(2) p(3) n_test_of_100000 c e f by blast
qed

theorem train_test_split_partition_witness:
  "is_permutation (length ex_100k_ratings) [0..<length ex_100k_ratings]
   \<and> length ex_100k_ratings = 100000
   \<and> length ex_100k_ratings < 2 ^ 32 \<and> 5 dvd length ex_100k_ratings
   \<and> length (snd (train_test_split ex_100k_ratings [0..<length ex_100k_ratings])) = 20000
   \<and> length (fst (train_test_split ex_100k_ratings [0..<length ex_100k_ratings])) = 80000
   \<and> is_permutation (length ex_three_ratings) [2, 0, 1]
   \<and> train_test_split ex_three_ratings [2, 0, 1]
       = ([(0, ex_three_ratings ! 0), (1, ex_three_ratings ! 1)], [(2, ex_three_ratings ! 2)])
   \<and> length [(2::int, ex_three_ratings ! 2)] = (length ex_three_ratings + 4) div 5"
proof -
  let ?X = "train_test_split ex_100k_ratings [0..<length ex_100k_ratings]"
  have l: "length ex_100k_ratings = 100000"
    by (simp only: ex_100k_ratings_def length_replicate)
  have q: "is_permutation (length ex_100k_ratings) [0..<length ex_100k_ratings]"
    by (simp only: is_permutation_def sort_upt)
  have x: "?X = (fst ?X, snd ?X)"
    by (rule prod.collapse [symmetric])
  have "length ex_100k_ratings = 100000 \<longrightarrow>
          length (snd ?X) = 20000 \<and> length (fst ?X) = 80000"
    using train_test_split_partition [OF q x] by blast
  then have big: "length (snd ?X) = 20000" "length (fst ?X) = 80000"
    using l by blast+
  have b: "length ex_100k_ratings < 2 ^ 32" "5 dvd length ex_100k_ratings"
    unfolding l by simp_all
  have p: "is_permutation (length ex_three_ratings) [2, 0, 1]" by code_simp
  have s: "train_test_split ex_three_ratings [2, 0, 1]
       = ([(0, ex_three_ratings ! 0), (1, ex_three_ratings ! 1)], [(2, ex_three_ratings ! 2)])"
    by code_simp
  have "length ex_three_ratings < 2 ^ 32" by (simp add: ex_three_ratings_def)
  then have t: "length [(2::int, ex_three_ratings ! 2)] = (length ex_three_ratings + 4) div 5"
    using train_test_split_partition [OF p s] by blast
  show ?thesis
    using q l b big p s t by blast
qed

section \<open>Properties of the training targets\<close>



section \<open>Properties of the item metadata\<close>

lemma collect_Inr: "collect xs = Inr ys \<Longrightarrow> xs = map Inr ys"
proof (induction xs arbitrary: ys)
  case Nil
  then show ?case by simp
next
  case (Cons x xs)
  then show ?case by (cases x) (auto split: sum.splits)
qed

lemma collect_map_nth:
  assumes "collect (map f xs) = Inr ys"
  shows "length ys = length xs" and "\<And>j. j < length xs \<Longrightarrow> f (xs ! j) = Inr (ys ! j)"
proof -
  have m: "map f xs = map Inr ys" using assms by (rule collect_Inr)
  then show l: "length ys = length xs" by (metis length_map)
  fix j assume j: "j < length xs"
  have "map f xs ! j = map Inr ys ! j" using m by simp
  then show "f (xs ! j) = Inr (ys ! j)" using j l by simp
qed

lemma py_int_digits:
  assumes "ds \<noteq> []" "list_all is_digit ds"
  shows "py_int ds = Inr (digits_value ds)"
proof -
  have ns: "\<And>c. is_digit c \<Longrightarrow> \<not> is_space c \<and> c \<noteq> CHR ''-'' \<and> c \<noteq> CHR ''+''"
    by (auto simp: is_digit_def is_space_def)
  obtain c r where ds: "ds = c # r" using assms(1) by (cases ds) auto
  have c: "is_digit c" using assms(2) ds by simp
  have l: "is_digit (last ds)" using assms by (simp add: list_all_iff)
  have "dropWhile is_space ds = ds" using ds c ns by simp
  moreover have "dropWhile is_space (rev ds) = rev ds"
    using l ns assms(1) by (cases "rev ds") (auto simp: last_rev hd_rev dest!: arg_cong [where f = hd])
  ultimately have "strip ds = ds" by (simp add: strip_def)
  then show ?thesis
    using ds c ns assms(2) by (simp add: py_int_def Let_def)
qed

lemma sum_list_shift_scale:
  "sum_list (map (\<lambda>x. (x - m) / s) xs) = (sum_list xs - real (length xs) * m) / (s::real)"
  by (induction xs) (simp_all add: algebra_simps add_divide_distrib diff_divide_distrib)

lemma sum_list_squares_scale:
  "sum_list (map (\<lambda>x. ((x - m) / s)\<^sup>2) xs) = sum_list (map (\<lambda>x. (x - m)\<^sup>2) xs) / (s::real)\<^sup>2"
  by (induction xs) (simp_all add: power_divide add_divide_distrib)

lemma mean_scaled:
  assumes "xs \<noteq> []"
  shows "mean (map (\<lambda>x. (x - mean xs) / s) xs) = 0"
proof -
  have "real (length xs) \<noteq> 0" using assms by simp
  then have "sum_list xs - real (length xs) * mean xs = 0"
    by (simp add: mean_def)
  then show ?thesis
    by (simp add: mean_def sum_list_shift_scale)
qed

lemma variance_nonneg: "0 \<le> variance xs"
proof -
  have "0 \<le> sum_list (map (\<lambda>x. (x - mean xs)\<^sup>2) xs)"
    by (rule sum_list_nonneg) auto
  then show ?thesis by (simp add: variance_def mean_def)
qed

lemma variance_scaled:
  assumes "xs \<noteq> []" "std xs \<noteq> 0"
  shows "variance (map (\<lambda>x. (x - mean xs) / std xs) xs) = 1"
proof -
  let ?sc = "map (\<lambda>x. (x - mean xs) / std xs) xs"
  have s2: "(std xs)\<^sup>2 = variance xs"
    by (simp add: std_def variance_nonneg)
  have v: "variance xs \<noteq> 0" using assms(2) by (simp add: std_def)
  have "variance ?sc = mean (map (\<lambda>y. y\<^sup>2) ?sc)"
    by (simp add: variance_def mean_scaled [OF assms(1)])
  also have "\<dots> = sum_list (map (\<lambda>x. ((x - mean xs) / std xs)\<^sup>2) xs) / real (length xs)"
    by (simp add: mean_def comp_def)
  also have "\<dots> = (sum_list (map (\<lambda>x. (x - mean xs)\<^sup>2) xs) / (std xs)\<^sup>2) / real (length xs)"
    by (simp only: sum_list_squares_scale)
  also have "\<dots> = variance xs / variance xs"
    by (simp add: s2 variance_def mean_def)
  finally show ?thesis using v by simp
qed


lemma scale_Inr:
  assumes "scale xs = Inr sc"
  shows "xs \<noteq> []" and "sc = map (\<lambda>x. (x - mean xs) / (if std xs = 0 then 1 else std xs)) xs"
  using assms by (auto simp: scale_def Let_def split: if_splits)

lemma py_int_fill_date: "py_int (last4 ''01-Jan-1997'') = Inr 1997"
  by code_simp

lemma load_items_nth:
  assumes "j < length raw"
  shows "fst (load_items raw ! j) = fst (raw ! j)"
    and "date (snd (load_items raw ! j)) =
           (case raw_date (snd (raw ! j)) of None \<Rightarrow> ''01-Jan-1997'' | Some d \<Rightarrow> d)"
  using assms by (simp_all add: load_items_def fillna_def fill_def split: prod.splits)

lemma add_date_columns_Inr:
  assumes "add_date_columns items = Inr tbl"
  obtains ds sc where
    "parsed_dates items = Inr ds" "scale (map real_of_int ds) = Inr sc"
    "length ds = length items" "length sc = length items" "length tbl = length items"
    "\<And>j. j < length items \<Longrightarrow>
        fst (tbl ! j) = fst (items ! j) \<and> date (snd (tbl ! j)) = date (snd (items ! j))
        \<and> parsed_date (snd (tbl ! j)) = ds ! j \<and> scaled_date (snd (tbl ! j)) = sc ! j"
proof -
  from assms obtain ds sc where
    pd: "parsed_dates items = Inr ds" and sc: "scale (map real_of_int ds) = Inr sc"
    and tbl: "tbl = map (\<lambda>((k, it), p, s).
                          (k, \<lparr>name = name it, date = date it, genre = genre it, url = url it,
                                parsed_date = p, scaled_date = s\<rparr>))
                      (zip items (zip ds sc))"
    by (auto simp: add_date_columns_def split: sum.splits)
  have ld: "length ds = length items"
    using pd unfolding parsed_dates_def by (rule collect_map_nth)
  have ls: "length sc = length items"
    using scale_Inr(2) [OF sc] ld by simp
  have lt: "length tbl = length items"
    using ld ls by (simp add: tbl)
  have n: "\<And>j. j < length items \<Longrightarrow>
        fst (tbl ! j) = fst (items ! j) \<and> date (snd (tbl ! j)) = date (snd (items ! j))
        \<and> parsed_date (snd (tbl ! j)) = ds ! j \<and> scaled_date (snd (tbl ! j)) = sc ! j"
    using ld ls by (simp add: tbl split: prod.splits)
  show ?thesis using that pd sc ld ls lt n by blast
qed

text \<open>
  Claim C10: when the date cell succeeds, every row keeps its label, its
  \<^verbatim>\<open>parsed_date\<close> is \<^verbatim>\<open>int\<close> of the last four characters of its date string (the
  decimal number they write when they are digits), a row whose date is missing in the
  file has the date 01-Jan-1997 and the \<^verbatim>\<open>parsed_date\<close> 1997, and the column
  \<^verbatim>\<open>scaled_date\<close> is \<^verbatim>\<open>parsed_date\<close> minus its mean over all items, divided by its
  standard deviation over all items: its mean is 0 and, unless all years are equal, its
  variance is 1.
\<close>

theorem dates_parsed_and_scaled:
  assumes "add_date_columns (load_items raw) = Inr tbl"
  shows "map fst tbl = map fst raw
    \<and> (\<forall>j < length raw.
          date (snd (tbl ! j)) =
            (case raw_date (snd (raw ! j)) of None \<Rightarrow> ''01-Jan-1997'' | Some d \<Rightarrow> d)
          \<and> py_int (last4 (date (snd (tbl ! j)))) = Inr (parsed_date (snd (tbl ! j)))
          \<and> (raw_date (snd (raw ! j)) = None \<longrightarrow> parsed_date (snd (tbl ! j)) = 1997)
          \<and> (last4 (date (snd (tbl ! j))) \<noteq> [] \<and> list_all is_digit (last4 (date (snd (tbl ! j))))
               \<longrightarrow> parsed_date (snd (tbl ! j)) = digits_value (last4 (date (snd (tbl ! j))))))
    \<and> (let ps = map (\<lambda>(k, it). real_of_int (parsed_date it)) tbl; s = std ps
        in map (\<lambda>(k, it). scaled_date it) tbl
             = map (\<lambda>x. (x - mean ps) / (if s = 0 then 1 else s)) ps
           \<and> mean (map (\<lambda>(k, it). scaled_date it) tbl) = 0
           \<and> (s \<noteq> 0 \<longrightarrow> variance (map (\<lambda>(k, it). scaled_date it) tbl) = 1))"
proof -
  let ?items = "load_items raw"
  have li: "length ?items = length raw" by (simp add: load_items_def fillna_def)
  from add_date_columns_Inr [OF assms] obtain ds sc where
    pd: "parsed_dates ?items = Inr ds" and sc: "scale (map real_of_int ds) = Inr sc"
    and ld: "length ds = length ?items" and ls: "length sc = length ?items"
    and lt: "length tbl = length ?items"
    and n: "\<And>j. j < length ?items \<Longrightarrow>
        fst (tbl ! j) = fst (?items ! j) \<and> date (snd (tbl ! j)) = date (snd (?items ! j))
        \<and> parsed_date (snd (tbl ! j)) = ds ! j \<and> scaled_date (snd (tbl ! j)) = sc ! j"
    by blast
  have a: "map fst tbl = map fst raw"
    by (rule nth_equalityI) (use lt li n load_items_nth(1) in auto)
  have b: "\<forall>j < length raw.
          date (snd (tbl ! j)) =
            (case raw_date (snd (raw ! j)) of None \<Rightarrow> ''01-Jan-1997'' | Some d \<Rightarrow> d)
          \<and> py_int (last4 (date (snd (tbl ! j)))) = Inr (parsed_date (snd (tbl ! j)))
          \<and> (raw_date (snd (raw ! j)) = None \<longrightarrow> parsed_date (snd (tbl ! j)) = 1997)
          \<and> (last4 (date (snd (tbl ! j))) \<noteq> [] \<and> list_all is_digit (last4 (date (snd (tbl ! j))))
               \<longrightarrow> parsed_date (snd (tbl ! j)) = digits_value (last4 (date (snd (tbl ! j)))))"
  proof (intro allI impI)
    fix j assume j: "j < length raw"
    then have j': "j < length ?items" using li by simp
    have d: "date (snd (tbl ! j)) =
            (case raw_date (snd (raw ! j)) of None \<Rightarrow> ''01-Jan-1997'' | Some d \<Rightarrow> d)"
      using n [OF j'] load_items_nth(2) [OF j] by simp
    have "(\<lambda>(k, it). py_int (last4 (date it))) (?items ! j) = Inr (ds ! j)"
      using pd j' unfolding parsed_dates_def by (rule collect_map_nth(2))
    then have p: "py_int (last4 (date (snd (tbl ! j)))) = Inr (parsed_date (snd (tbl ! j)))"
      using n [OF j'] by (simp add: case_prod_unfold)
    have f: "raw_date (snd (raw ! j)) = None \<longrightarrow> parsed_date (snd (tbl ! j)) = 1997"
      using p d py_int_fill_date by auto
    have g: "last4 (date (snd (tbl ! j))) \<noteq> [] \<and> list_all is_digit (last4 (date (snd (tbl ! j))))
               \<longrightarrow> parsed_date (snd (tbl ! j)) = digits_value (last4 (date (snd (tbl ! j))))"
      using p py_int_digits by fastforce
    show "date (snd (tbl ! j)) =
            (case raw_date (snd (raw ! j)) of None \<Rightarrow> ''01-Jan-1997'' | Some d \<Rightarrow> d)
          \<and> py_int (last4 (date (snd (tbl ! j)))) = Inr (parsed_date (snd (tbl ! j)))
          \<and> (raw_date (snd (raw ! j)) = None \<longrightarrow> parsed_date (snd (tbl ! j)) = 1997)
          \<and> (last4 (date (snd (tbl ! j))) \<noteq> [] \<and> list_all is_digit (last4 (date (snd (tbl ! j))))
               \<longrightarrow> parsed_date (snd (tbl ! j)) = digits_value (last4 (date (snd (tbl ! j)))))"
      using d p f g by blast
  qed
  let ?ps = "map (\<lambda>(k, it). real_of_int (parsed_date it)) tbl"
  let ?sd = "map (\<lambda>(k, it). scaled_date it) tbl"
  have ps: "?ps = map real_of_int ds"
    by (rule nth_equalityI) (use lt ld n in \<open>auto simp: case_prod_unfold\<close>)
  have sd: "?sd = sc"
    by (rule nth_equalityI) (use lt ls n in \<open>auto simp: case_prod_unfold\<close>)
  have ne: "?ps \<noteq> []" using scale_Inr(1) [OF sc] ps by simp
  have c1: "?sd = map (\<lambda>x. (x - mean ?ps) / (if std ?ps = 0 then 1 else std ?ps)) ?ps"
    unfolding sd ps using sc by (rule scale_Inr(2))
  have c2: "mean ?sd = 0"
    by (subst c1) (rule mean_scaled [OF ne])
  have c3: "std ?ps \<noteq> 0 \<longrightarrow> variance ?sd = 1"
  proof
    assume s: "std ?ps \<noteq> 0"
    have e: "?sd = map (\<lambda>x. (x - mean ?ps) / std ?ps) ?ps"
      using c1 s by simp
    show "variance ?sd = 1"
      by (subst e) (rule variance_scaled [OF ne s])
  qed
  show ?thesis
    using a b c1 c2 c3 unfolding Let_def by blast
qed


theorem dates_parsed_and_scaled_witness:
  "add_date_columns (load_items ex_raw_items) =
     Inr [(1, \<lparr>name = ''Toy Story (1995)'', date = ''01-Jan-1995'', genre = ''01-Jan-1997'',
               url = ''http://us.imdb.com/M/title-exact?Toy%20Story%20(1995)'',
               parsed_date = 1995, scaled_date = - 1\<rparr>),
          (2, \<lparr>name = ''unknown'', date = ''01-Jan-1997'', genre = ''01-Jan-1997'',
               url = ''01-Jan-1997'', parsed_date = 1997, scaled_date = 1\<rparr>)]
   \<and> raw_date (snd (ex_raw_items ! 1)) = None
   \<and> std [1995, 1997] = 1 \<and> mean [- 1, 1] = 0 \<and> variance [- 1, 1] = 1"
proof -
  have pd: "parsed_dates (load_items ex_raw_items) = Inr [1995, 1997]"
    by code_simp
  have m: "mean [1995, 1997] = 1996"
    by (simp add: mean_def)
  have st: "std [1995, 1997] = 1"
    by (simp add: std_def variance_def m) (simp add: mean_def)
  have sc: "scale [1995, 1997] = Inr [- 1, 1]"
    by (simp add: scale_def st m)
  have t: "add_date_columns (load_items ex_raw_items) =
     Inr [(1, \<lparr>name = ''Toy Story (1995)'', date = ''01-Jan-1995'', genre = ''01-Jan-1997'',
               url = ''http://us.imdb.com/M/title-exact?Toy%20Story%20(1995)'',
               parsed_date = 1995, scaled_date = - 1\<rparr>),
          (2, \<lparr>name = ''unknown'', date = ''01-Jan-1997'', genre = ''01-Jan-1997'',
               url = ''01-Jan-1997'', parsed_date = 1997, scaled_date = 1\<rparr>)]"
    by (simp add: add_date_columns_def pd sc)
       (simp add: load_items_def fillna_def fill_def ex_raw_items_def)
  have r: "raw_date (snd (ex_raw_items ! 1)) = None"
    by (simp add: ex_raw_items_def)
  from dates_parsed_and_scaled [OF t] have "mean [- 1, 1] = 0 \<and> variance [- 1, 1] = 1"
    by (simp add: Let_def st)
  with t r st show ?thesis by simp
qed

section \<open>Properties of the similarity cell\<close>

lemma sqrt_25: "sqrt 25 = 5"
  by (rule real_sqrt_unique) simp_all

text \<open>
  Claim C2 (\<^verbatim>\<open>euclidean_distances\<close> returns the distances to the item embeddings,
  \<^verbatim>\<open>cosine\<close> the cosine similarity, \<^verbatim>\<open>most_similar\<close> the \<open>top_n\<close> nearest item
  names) fails on the code: the three functions of the notebook are the placeholders of
  an exercise. The distance of the point (3, 4) to the embedding (0, 0) is 5 and the
  cosine of (1, 0) with itself is 1, and both functions return 0; \<^verbatim>\<open>most_similar\<close>
  returns the names of the items 1, 2, 3 for every index and every \<open>top_n\<close>, three
  names where \<open>top_n = 1\<close> asks for one.
\<close>

theorem similarity_functions_are_placeholders:
  "euclidean_distances [3, 4] = 0 \<and> spec_euclidean_distances [[0, 0]] [3, 4] = [5]
   \<and> cosine [1, 0] [1, 0] = 0 \<and> spec_cosine [1, 0] [1, 0] = 1
   \<and> most_similar ex_items 4 1 = Inr [''A'', ''B'', ''C'']
   \<and> most_similar ex_items 1 1 = Inr [''A'', ''B'', ''C'']"
proof -
  have a: "spec_euclidean_distances [[0, 0]] [3, 4] = [5]"
    by (simp add: spec_euclidean_distances_def spec_norm_def sqrt_25)
  have b: "spec_cosine [1, 0] [1, 0] = 1"
    by (simp add: spec_cosine_def spec_norm_def dot_def)
  have c: "most_similar ex_items 4 1 = Inr [''A'', ''B'', ''C'']"
    by code_simp
  have d: "most_similar ex_items 1 1 = Inr [''A'', ''B'', ''C'']"
    by code_simp
  show ?thesis
    using a b c d by (simp add: euclidean_distances_def cosine_def)
qed

end
